theory Spec2Isabelle
  imports Main "HOL-Library.Word" "HOL-Library.AList"
begin

section \<open>Text primitives\<close>

text \<open>
  Identifiers and operator input are HOL strings; a \<open>char\<close> stands for the UTF-16 code
  unit of the same value (U+0000 to U+00FF). The functions below are the JavaScript
  string methods the code calls, on that range.
\<close>

definition upper_chars :: string where
  "upper_chars = ''ABCDEFGHIJKLMNOPQRSTUVWXYZ'' @
     [CHR 0xC0, CHR 0xC1, CHR 0xC2, CHR 0xC3, CHR 0xC4, CHR 0xC5, CHR 0xC6, CHR 0xC7,
      CHR 0xC8, CHR 0xC9, CHR 0xCA, CHR 0xCB, CHR 0xCC, CHR 0xCD, CHR 0xCE, CHR 0xCF,
      CHR 0xD0, CHR 0xD1, CHR 0xD2, CHR 0xD3, CHR 0xD4, CHR 0xD5, CHR 0xD6,
      CHR 0xD8, CHR 0xD9, CHR 0xDA, CHR 0xDB, CHR 0xDC, CHR 0xDD, CHR 0xDE]"

definition lower_chars :: string where
  "lower_chars = ''abcdefghijklmnopqrstuvwxyz'' @
     [CHR 0xE0, CHR 0xE1, CHR 0xE2, CHR 0xE3, CHR 0xE4, CHR 0xE5, CHR 0xE6, CHR 0xE7,
      CHR 0xE8, CHR 0xE9, CHR 0xEA, CHR 0xEB, CHR 0xEC, CHR 0xED, CHR 0xEE, CHR 0xEF,
      CHR 0xF0, CHR 0xF1, CHR 0xF2, CHR 0xF3, CHR 0xF4, CHR 0xF5, CHR 0xF6,
      CHR 0xF8, CHR 0xF9, CHR 0xFA, CHR 0xFB, CHR 0xFC, CHR 0xFD, CHR 0xFE]"

definition toLowerCase_char :: "char \<Rightarrow> char" where
  "toLowerCase_char c =
     (case map_of (zip upper_chars lower_chars) c of Some l \<Rightarrow> l | None \<Rightarrow> c)"

definition toLowerCase :: "string \<Rightarrow> string" where
  "toLowerCase s = map toLowerCase_char s"

text \<open>
  White space as \<open>trim\<close> and the regular expression class \<open>\s\<close> see it: tab, line feed,
  vertical tab, form feed, carriage return, space, no-break space.
\<close>

definition is_space :: "char \<Rightarrow> bool" where
  "is_space c =
     (c = CHR 0x09 \<or> c = CHR 0x0A \<or> c = CHR 0x0B \<or> c = CHR 0x0C \<or> c = CHR 0x0D
      \<or> c = CHR 0x20 \<or> c = CHR 0xA0)"

definition trim :: "string \<Rightarrow> string" where
  "trim s = rev (dropWhile is_space (rev (dropWhile is_space s)))"

definition startsWith :: "string \<Rightarrow> string \<Rightarrow> bool" where
  "startsWith s sub = (take (length sub) s = sub)"

fun includes_str :: "string \<Rightarrow> string \<Rightarrow> bool" where
  "includes_str [] sub = (sub = [])"
| "includes_str (c # cs) sub = (startsWith (c # cs) sub \<or> includes_str cs sub)"

definition digit_chars :: string where
  "digit_chars = ''0123456789''"

fun show_nat :: "nat \<Rightarrow> string" where
  "show_nat n =
     (if n < 10 then [digit_chars ! n]
      else show_nat (n div 10) @ [digit_chars ! (n mod 10)])"

definition digits16 :: string where
  "digits16 = ''0123456789abcdef''"

text \<open>The value of a digit in the given radix, if it is one.\<close>

definition digit_value :: "nat \<Rightarrow> char \<Rightarrow> nat option" where
  "digit_value radix c =
     (case map_of (zip digits16 [0, 1, 2, 3, 4, 5, 6, 7, 8, 9, 10, 11, 12, 13, 14, 15]) (toLowerCase_char c) of
        Some v \<Rightarrow> (if v < radix then Some v else None)
      | None \<Rightarrow> None)"

fun read_digits :: "nat \<Rightarrow> string \<Rightarrow> nat option \<Rightarrow> nat option" where
  "read_digits radix [] acc = acc"
| "read_digits radix (c # cs) acc =
     (case digit_value radix c of
        None \<Rightarrow> acc
      | Some v \<Rightarrow> read_digits radix cs (Some ((case acc of None \<Rightarrow> 0 | Some a \<Rightarrow> a) * radix + v)))"

text \<open>
  \<open>parseInt(s)\<close> without a radix: leading white space, an optional sign, an optional
  \<open>0x\<close> prefix selecting radix 16, then the longest run of digits; \<open>None\<close> is \<open>NaN\<close>.
\<close>

definition parseInt :: "string \<Rightarrow> int option" where
  "parseInt s =
     (let s1 = dropWhile is_space s;
          negative = startsWith s1 ''-'';
          s2 = (if startsWith s1 ''-'' \<or> startsWith s1 ''+'' then drop 1 s1 else s1);
          hex = startsWith (toLowerCase (take 2 s2)) ''0x'';
          magnitude = (if hex then read_digits 16 (drop 2 s2) None else read_digits 10 s2 None)
      in case magnitude of
           None \<Rightarrow> None
         | Some m \<Rightarrow> Some (if negative then - int m else int m))"

section \<open>Agent records and persistence (state/persistence.ts)\<close>

datatype AgentStatus = starting | running | stopping | stopped

record Agent =
  a_id :: string
  a_type :: string
  jid :: string
  workDir :: string
  a_createdAt :: string
  createdBy :: string
  status :: AgentStatus
  pid :: "nat option"
  sessionId :: "string option"

text \<open>
  \<open>Partial<Agent>\<close>: every key may be absent (\<open>None\<close>). The two optional fields of
  \<open>Agent\<close> can also be present with the value \<open>undefined\<close> (\<open>Some None\<close>).
\<close>

record AgentUpdates =
  u_id :: "string option"
  u_type :: "string option"
  u_jid :: "string option"
  u_workDir :: "string option"
  u_createdAt :: "string option"
  u_createdBy :: "string option"
  u_status :: "AgentStatus option"
  u_pid :: "nat option option"
  u_sessionId :: "string option option"

definition no_updates :: AgentUpdates where
  "no_updates = \<lparr>u_id = None, u_type = None, u_jid = None, u_workDir = None,
     u_createdAt = None, u_createdBy = None, u_status = None, u_pid = None,
     u_sessionId = None\<rparr>"

datatype error = Error string

text \<open>
  \<open>StatePersistence\<close>: \<open>state_agents\<close> is \<open>this.state.agents\<close>, \<open>disk\<close> the agents last
  written to the state file, and \<open>writable\<close> says whether writing the file succeeds.
\<close>

record StatePersistence =
  state_agents :: "Agent list"
  disk :: "Agent list"
  writable :: bool

definition save :: "StatePersistence \<Rightarrow> (error + unit) \<times> StatePersistence" where
  "save p = (if writable p then (Inr (), p\<lparr>disk := state_agents p\<rparr>)
             else (Inl (Error ''Failed to save state''), p))"

fun replace_first :: "('a \<Rightarrow> bool) \<Rightarrow> 'a \<Rightarrow> 'a list \<Rightarrow> 'a list option" where
  "replace_first P y [] = None"
| "replace_first P y (x # xs) =
     (if P x then Some (y # xs) else map_option ((#) x) (replace_first P y xs))"

definition upsertAgent :: "StatePersistence \<Rightarrow> Agent \<Rightarrow> (error + unit) \<times> StatePersistence" where
  "upsertAgent p agent =
     (case replace_first (\<lambda>a. a_id a = a_id agent) agent (state_agents p) of
        Some agents' \<Rightarrow> save (p\<lparr>state_agents := agents'\<rparr>)
      | None \<Rightarrow> save (p\<lparr>state_agents := state_agents p @ [agent]\<rparr>))"

section \<open>Agent registry (agents/registry.ts)\<close>

text \<open>
  The registry's \<open>Map<string, Agent>\<close> keeps insertion order: an association list, where
  \<open>AList.update\<close> replaces the value of a present key in place and appends an absent one,
  as \<open>Map.prototype.set\<close> does.
\<close>

record AgentRegistry =
  agents :: "(string \<times> Agent) list"
  persistence :: StatePersistence

definition get :: "AgentRegistry \<Rightarrow> string \<Rightarrow> Agent option" where
  "get r i = map_of (agents r) i"

text \<open>
  \<open>{...existing, ...updates, id: existing.id, createdAt: existing.createdAt}\<close>
\<close>

definition merge_agent :: "Agent \<Rightarrow> AgentUpdates \<Rightarrow> Agent" where
  "merge_agent existing updates =
     \<lparr>a_id = a_id existing,
      a_type = (case u_type updates of Some v \<Rightarrow> v | None \<Rightarrow> a_type existing),
      jid = (case u_jid updates of Some v \<Rightarrow> v | None \<Rightarrow> jid existing),
      workDir = (case u_workDir updates of Some v \<Rightarrow> v | None \<Rightarrow> workDir existing),
      a_createdAt = a_createdAt existing,
      createdBy = (case u_createdBy updates of Some v \<Rightarrow> v | None \<Rightarrow> createdBy existing),
      status = (case u_status updates of Some v \<Rightarrow> v | None \<Rightarrow> status existing),
      pid = (case u_pid updates of Some v \<Rightarrow> v | None \<Rightarrow> pid existing),
      sessionId = (case u_sessionId updates of Some v \<Rightarrow> v | None \<Rightarrow> sessionId existing)\<rparr>"

text \<open>
  \<open>update\<close> returns the error it throws (\<open>Inl\<close>) or nothing, together with the registry
  as the call leaves it.
\<close>

definition update :: "AgentRegistry \<Rightarrow> string \<Rightarrow> AgentUpdates \<Rightarrow> (error + unit) \<times> AgentRegistry" where
  "update r i updates =
     (case map_of (agents r) i of
        None \<Rightarrow> (Inl (Error (''Agent not found: '' @ i)), r)
      | Some existing \<Rightarrow>
          (let updated = merge_agent existing updates;
               (res, p') = upsertAgent (persistence r) updated
           in (res, \<lparr>agents = AList.update i updated (agents r), persistence = p'\<rparr>)))"

definition ADJECTIVES :: "string list" where
  "ADJECTIVES =
     [''swift'', ''clever'', ''bold'', ''calm'', ''eager'',
      ''gentle'', ''happy'', ''keen'', ''lucky'', ''mighty'',
      ''noble'', ''quick'', ''sharp'', ''wise'', ''brave'',
      ''bright'', ''cool'', ''fair'', ''grand'', ''jolly'']"

definition ANIMALS :: "string list" where
  "ANIMALS =
     [''fox'', ''owl'', ''bear'', ''wolf'', ''hawk'',
      ''deer'', ''lynx'', ''seal'', ''crow'', ''dove'',
      ''hare'', ''lion'', ''otter'', ''panda'', ''raven'',
      ''tiger'', ''viper'', ''whale'', ''zebra'', ''badger'']"

text \<open>
  \<open>Math.random\<close> is an oracle: \<open>rnd k\<close> holds the numbers behind the two draws of the
  \<open>k\<close>-th attempt, and \<open>Math.floor(Math.random() * length)\<close> is that number reduced below
  the table's length. The functions return the position of the next unused draw.
\<close>

fun generateId_loop ::
  "nat \<Rightarrow> (string \<times> Agent) list \<Rightarrow> (nat \<Rightarrow> nat \<times> nat) \<Rightarrow> nat \<Rightarrow> (error + string) \<times> nat" where
  "generateId_loop 0 ags rnd k =
     (Inl (Error ''Failed to generate unique agent ID after 10 attempts''), k)"
| "generateId_loop (Suc n) ags rnd k =
     (let adjective = ADJECTIVES ! (fst (rnd k) mod length ADJECTIVES);
          animal = ANIMALS ! (snd (rnd k) mod length ANIMALS);
          i = adjective @ ''-'' @ animal
      in if map_of ags i = None then (Inr i, Suc k)
         else generateId_loop n ags rnd (Suc k))"

definition generateId :: "AgentRegistry \<Rightarrow> (nat \<Rightarrow> nat \<times> nat) \<Rightarrow> nat \<Rightarrow> (error + string) \<times> nat" where
  "generateId r rnd k = generateId_loop 10 (agents r) rnd k"

text \<open>
  \<open>register\<close> takes the agent without id and creation time (the two fields of its
  argument are ignored) and the current time as an ISO string.
\<close>

definition register ::
  "AgentRegistry \<Rightarrow> Agent \<Rightarrow> (nat \<Rightarrow> nat \<times> nat) \<Rightarrow> nat \<Rightarrow> string
     \<Rightarrow> (error + Agent) \<times> AgentRegistry \<times> nat" where
  "register r agent rnd k now_iso =
     (case generateId r rnd k of
        (Inl e, k') \<Rightarrow> (Inl e, r, k')
      | (Inr i, k') \<Rightarrow>
          (let newAgent = agent\<lparr>a_id := i, a_createdAt := now_iso\<rparr>;
               (res, p') = upsertAgent (persistence r) newAgent;
               r' = \<lparr>agents = AList.update i newAgent (agents r), persistence = p'\<rparr>
           in case res of
                Inl e \<Rightarrow> (Inl e, r', k')
              | Inr _ \<Rightarrow> (Inr newAgent, r', k')))"

definition empty_registry :: AgentRegistry where
  "empty_registry = \<lparr>agents = [], persistence = \<lparr>state_agents = [], disk = [], writable = True\<rparr>\<rparr>"

section \<open>Output splitting (src/xmpp/agent-bot.ts)\<close>

text \<open>
  A JavaScript string is a sequence of UTF-16 code units; \<open>length\<close>, \<open>slice\<close> and
  \<open>lastIndexOf\<close> all count code units.
\<close>

type_synonym code_unit = "16 word"
type_synonym js_string = "code_unit list"

definition MAX_MESSAGE_SIZE :: nat where
  "MAX_MESSAGE_SIZE = 64 * 1024"

definition newline :: code_unit where
  "newline = 0x0A"

text \<open>
  \<open>scan_back s c n\<close> inspects the indices \<open>n - 1, n - 2, ..., 0\<close> of \<open>s\<close> in that
  order and returns the first one that holds \<open>c\<close>, or \<open>-1\<close>. It is only called with
  \<open>n \<le> length s\<close>.
\<close>

primrec scan_back :: "js_string \<Rightarrow> code_unit \<Rightarrow> nat \<Rightarrow> int" where
  "scan_back s c 0 = -1"
| "scan_back s c (Suc i) = (if s ! i = c then int i else scan_back s c i)"

text \<open>
  \<open>String.prototype.lastIndexOf(c, position)\<close> for a one-unit search string: the
  greatest index \<open>i \<le> position\<close> with \<open>s[i] = c\<close>, or \<open>-1\<close>. The search starts at
  \<open>min position (length s - 1)\<close>, that index included.
\<close>

definition lastIndexOf :: "js_string \<Rightarrow> code_unit \<Rightarrow> nat \<Rightarrow> int" where
  "lastIndexOf s c position = scan_back s c (min (Suc position) (length s))"

text \<open>
  The index at which one round of the \<open>while\<close> loop of \<open>splitMessage\<close> cuts
  \<open>remaining\<close>. \<open>MAX_MESSAGE_SIZE * 0.5\<close> is the integer 32768, since the size is even.
\<close>

definition splitIndex :: "js_string \<Rightarrow> nat" where
  "splitIndex remaining =
     (if length remaining > MAX_MESSAGE_SIZE then
        (let lastNewline = lastIndexOf remaining newline MAX_MESSAGE_SIZE
         in if lastNewline > int (MAX_MESSAGE_SIZE div 2) then nat (lastNewline + 1)
            else MAX_MESSAGE_SIZE)
      else length remaining)"

function splitLoop :: "js_string \<Rightarrow> js_string list \<Rightarrow> js_string list" where
  "splitLoop remaining chunks =
     (if length remaining > 0 then
        splitLoop (drop (splitIndex remaining) remaining)
                  (chunks @ [take (splitIndex remaining) remaining])
      else chunks)"
  by pat_completeness auto
termination
  by (relation "measure (\<lambda>(remaining, chunks). length remaining)")
     (auto simp: splitIndex_def Let_def MAX_MESSAGE_SIZE_def)

definition splitMessage :: "js_string \<Rightarrow> js_string list" where
  "splitMessage content =
     (if length content \<le> MAX_MESSAGE_SIZE then [content] else splitLoop content [])"

section \<open>Manager conversation (xmpp/manager-mb.ts)\<close>

datatype Step = idle | awaiting_type | awaiting_repo | awaiting_task

record ConversationState =
  step :: Step
  agentType :: "string option"
  repo :: "string option"

record AgentCreatedEvent =
  agent :: Agent
  initialPrompt :: string

text \<open>
  The bot's own state, and what it has done to its collaborators: \<open>sent\<close> lists the
  messages handed to the XMPP client, \<open>xmpp_users\<close> the accounts created through the
  admin API, \<open>emitted\<close> the agent-created events passed to the callbacks.
\<close>

record ManagerBot =
  conversations :: "(string \<times> ConversationState) list"
  m_registry :: AgentRegistry
  sent :: "(string \<times> string) list"
  xmpp_users :: "(string \<times> string) list"
  emitted :: "AgentCreatedEvent list"
  rnd_pos :: nat

text \<open>
  What the bot reads from outside: the configuration, the sorted directory names
  \<open>getAvailableRepos\<close> returns, the random oracle, the generated password, the error
  with which the admin API refuses the new user (if it does), and the clock.
\<close>

record ManagerEnv =
  basePath :: string
  domain :: string
  available_repos :: "string list"
  rnd :: "nat \<Rightarrow> nat \<times> nat"
  new_password :: string
  createUser_error :: "error option"
  clock_iso :: string

text \<open>\<open>sendMessage\<close> catches and logs a failure of the client; it never throws.\<close>

definition sendMessage :: "ManagerBot \<Rightarrow> string \<Rightarrow> string \<Rightarrow> ManagerBot" where
  "sendMessage mb to body = mb\<lparr>sent := sent mb @ [(to, body)]\<rparr>"

definition join_lines :: "string list \<Rightarrow> string" where
  "join_lines ls = concat (case ls of [] \<Rightarrow> [] | l # rest \<Rightarrow> l # map (\<lambda>x. CHR 0x0A # x) rest)"

definition repoList :: "string list \<Rightarrow> string" where
  "repoList repos =
     join_lines (map (\<lambda>(idx, r). ''['' @ show_nat (idx + 1) @ ''] '' @ r)
                     (zip [0 ..< length repos] repos))"

definition handleTypeSelection ::
  "ManagerEnv \<Rightarrow> ManagerBot \<Rightarrow> string \<Rightarrow> string \<Rightarrow> ConversationState
     \<Rightarrow> ManagerBot \<times> ConversationState" where
  "handleTypeSelection env mb userJid input state =
     (if input = ''1'' \<or> includes_str (toLowerCase input) ''claude'' then
        (let state1 = state\<lparr>agentType := Some ''claude-code'', step := awaiting_repo\<rparr>;
             repos = available_repos env
         in if length repos = 0 then
              (sendMessage mb userJid
                 (''No repositories found in '' @ basePath env
                    @ ''. Please add some repositories first.''),
               state1\<lparr>step := idle\<rparr>)
            else
              (sendMessage mb userJid
                 (''Available repos:'' @ [CHR 0x0A] @ repoList repos @ [CHR 0x0A, CHR 0x0A]
                    @ ''Select a number or type a repo name:''),
               state1))
      else
        (sendMessage mb userJid
           ''Invalid selection. Please enter '1' for Claude Code or type 'cancel' to abort.'',
         state))"

definition selectRepo :: "string list \<Rightarrow> string \<Rightarrow> string option" where
  "selectRepo repos input =
     (case parseInt input of
        Some selection \<Rightarrow>
          (if selection \<ge> 1 \<and> selection \<le> int (length repos)
           then Some (repos ! nat (selection - 1))
           else find (\<lambda>r. toLowerCase r = toLowerCase input) repos)
      | None \<Rightarrow> find (\<lambda>r. toLowerCase r = toLowerCase input) repos)"

definition handleRepoSelection ::
  "ManagerEnv \<Rightarrow> ManagerBot \<Rightarrow> string \<Rightarrow> string \<Rightarrow> ConversationState
     \<Rightarrow> ManagerBot \<times> ConversationState" where
  "handleRepoSelection env mb userJid input state =
     (if toLowerCase input = ''cancel'' then
        (sendMessage mb userJid ''Agent creation cancelled.'', state\<lparr>step := idle\<rparr>)
      else
        (case selectRepo (available_repos env) input of
           Some selectedRepo \<Rightarrow>
             (if selectedRepo \<noteq> [] then
                (sendMessage mb userJid ''Great! What's the initial task for the agent?'',
                 state\<lparr>repo := Some selectedRepo, step := awaiting_task\<rparr>)
              else
                (sendMessage mb userJid
                   ''Invalid selection. Please enter a number from the list or type 'cancel' to abort.'',
                 state))
         | None \<Rightarrow>
             (sendMessage mb userJid
                ''Invalid selection. Please enter a number from the list or type 'cancel' to abort.'',
              state)))"

text \<open>
  The \<open>try\<close> block of \<open>handleTaskInput\<close> up to the registration: the id, the XMPP
  account, the registry entry. \<open>Inl\<close> is the error the \<open>catch\<close> clause receives.
\<close>

definition createAgent ::
  "ManagerEnv \<Rightarrow> ManagerBot \<Rightarrow> string \<Rightarrow> ConversationState \<Rightarrow> (error + Agent) \<times> ManagerBot" where
  "createAgent env mb userJid state =
     (case repo state of
        None \<Rightarrow> (Inl (Error ''The path argument must be of type string''), mb)
      | Some r \<Rightarrow>
          (let workDir' = basePath env @ ''/'' @ r
           in case generateId (m_registry mb) (rnd env) (rnd_pos mb) of
                (Inl e, k) \<Rightarrow> (Inl e, mb\<lparr>rnd_pos := k\<rparr>)
              | (Inr agentId, k) \<Rightarrow>
                  (case createUser_error env of
                     Some e \<Rightarrow> (Inl e, mb\<lparr>rnd_pos := k\<rparr>)
                   | None \<Rightarrow>
                     (let mb1 = mb\<lparr>xmpp_users := xmpp_users mb @ [(agentId, new_password env)]\<rparr>;
                          (res, reg', k') =
                            register (m_registry mb1)
                              \<lparr>a_id = [], a_type = ''claude-code'',
                               jid = agentId @ ''@'' @ domain env, workDir = workDir',
                               a_createdAt = [], createdBy = userJid, status = starting,
                               pid = None, sessionId = None\<rparr>
                              (rnd env) k (clock_iso env)
                      in (res, mb1\<lparr>m_registry := reg', rnd_pos := k'\<rparr>)))))"

definition error_message :: "error \<Rightarrow> string" where
  "error_message e = (case e of Error m \<Rightarrow> m)"

definition handleTaskInput ::
  "ManagerEnv \<Rightarrow> ManagerBot \<Rightarrow> string \<Rightarrow> string \<Rightarrow> ConversationState
     \<Rightarrow> ManagerBot \<times> ConversationState" where
  "handleTaskInput env mb userJid input state =
     (if toLowerCase input = ''cancel'' then
        (sendMessage mb userJid ''Agent creation cancelled.'', state\<lparr>step := idle\<rparr>)
      else
        (case createAgent env mb userJid state of
           (Inr ag, mb1) \<Rightarrow>
             (let mb2 = sendMessage mb1 userJid
                           (''Agent '' @ a_id ag @ '' created. Chat at '' @ jid ag)
              in (mb2\<lparr>emitted := emitted mb2 @ [\<lparr>agent = ag, initialPrompt = input\<rparr>]\<rparr>,
                  state\<lparr>step := idle, agentType := None, repo := None\<rparr>))
         | (Inl e, mb1) \<Rightarrow>
             (sendMessage mb1 userJid (''Failed to create agent: '' @ error_message e),
              state\<lparr>step := idle, agentType := None, repo := None\<rparr>)))"

text \<open>
  \<open>handleConversationStep\<close>, called by \<open>handleMessage\<close> with the trimmed body when the
  sender's conversation is not idle. The handlers mutate the state object that the
  \<open>conversations\<close> map holds, so the new state is stored back under the sender.
\<close>

definition handleConversationStep :: "ManagerEnv \<Rightarrow> ManagerBot \<Rightarrow> string \<Rightarrow> string \<Rightarrow> ManagerBot" where
  "handleConversationStep env mb userJid input =
     (case map_of (conversations mb) userJid of
        None \<Rightarrow> mb
      | Some state \<Rightarrow>
          (let (mb', state') =
                 (case step state of
                    awaiting_type \<Rightarrow> handleTypeSelection env mb userJid input state
                  | awaiting_repo \<Rightarrow> handleRepoSelection env mb userJid input state
                  | awaiting_task \<Rightarrow> handleTaskInput env mb userJid input state
                  | idle \<Rightarrow> (mb, state))
           in mb'\<lparr>conversations := AList.update userJid state' (conversations mb')\<rparr>))"

text \<open>A bot in the middle of a creation dialogue with one operator.\<close>

definition demo_env :: ManagerEnv where
  "demo_env = \<lparr>basePath = ''/work'', domain = ''localhost'', available_repos = [''proj-x''],
     rnd = (\<lambda>k. (0, 0)), new_password = ''secret'', createUser_error = None,
     clock_iso = ''2025-01-01T00:00:00.000Z''\<rparr>"

definition demo_bot :: "ConversationState \<Rightarrow> ManagerBot" where
  "demo_bot state = \<lparr>conversations = [(''op@localhost'', state)], m_registry = empty_registry,
     sent = [], xmpp_users = [], emitted = [], rnd_pos = 0\<rparr>"

section \<open>Permission prompt tool (mcp/tools/permission-prompt.ts)\<close>

record PermissionResult =
  approved :: bool
  reason :: "string option"

text \<open>
  A pending request. \<open>p_createdAt\<close> is \<open>createdAt.getTime()\<close>; \<open>resolve\<close> names the promise
  the caller of \<open>requestPermission\<close> awaits, \<open>timeoutHandle\<close> the timer \<open>setTimeout\<close>
  returned. \<open>details\<close> is opaque to everything modelled here.
\<close>

record PendingPermission =
  p_id :: string
  p_agentId :: string
  action :: string
  description :: string
  details :: string
  p_createdAt :: nat
  resolve :: nat
  timeoutHandle :: nat

text \<open>
  A timeout the runtime still holds: the time it is due and what its callback has
  captured (the request id and the promise's \<open>resolve\<close>).
\<close>

record Timer =
  t_handle :: nat
  due :: nat
  t_requestId :: string
  t_resolve :: nat

text \<open>
  The tool: its \<open>pending\<close> map in insertion order, the live timers, every call of a
  \<open>resolve\<close> function so far (promise and result, in order), the prompts handed to
  \<open>sendMessage\<close> (agent and request id), and the next fresh handle.
\<close>

record PermissionPromptTool =
  timeoutMs :: nat
  pending :: "(string \<times> PendingPermission) list"
  timers :: "Timer list"
  resolutions :: "(nat \<times> PermissionResult) list"
  prompts :: "(string \<times> string) list"
  next_handle :: nat

definition new_tool :: "nat \<Rightarrow> PermissionPromptTool" where
  "new_tool ms = \<lparr>timeoutMs = ms, pending = [], timers = [], resolutions = [], prompts = [],
     next_handle = 0\<rparr>"

definition clearTimeout :: "nat \<Rightarrow> Timer list \<Rightarrow> Timer list" where
  "clearTimeout h ts = filter (\<lambda>t. t_handle t \<noteq> h) ts"

subsection \<open>Request ids\<close>

fun toString16 :: "nat \<Rightarrow> string" where
  "toString16 n =
     (if n < 16 then [digits16 ! n]
      else toString16 (n div 16) @ [digits16 ! (n mod 16)])"

definition padStart4 :: "string \<Rightarrow> string" where
  "padStart4 s = replicate (4 - length s) CHR ''0'' @ s"

definition slice_last4 :: "string \<Rightarrow> string" where
  "slice_last4 s = drop (length s - 4) s"

text \<open>
  The \<open>for\<close> loop of \<open>generateRequestId\<close> with \<open>n\<close> attempts left; \<open>random k\<close> is
  \<open>Math.floor(Math.random() * 0x10000)\<close> of the \<open>k\<close>-th draw. \<open>None\<close>: every attempt
  collided.
\<close>

fun generateRequestId_loop ::
  "nat \<Rightarrow> (string \<times> PendingPermission) list \<Rightarrow> (nat \<Rightarrow> nat) \<Rightarrow> nat \<Rightarrow> string option" where
  "generateRequestId_loop 0 pend random k = None"
| "generateRequestId_loop (Suc n) pend random k =
     (let i = padStart4 (toString16 (random k mod 0x10000))
      in if map_of pend i = None then Some i
         else generateRequestId_loop n pend random (Suc k))"

definition generateRequestId :: "PermissionPromptTool \<Rightarrow> (nat \<Rightarrow> nat) \<Rightarrow> nat \<Rightarrow> string" where
  "generateRequestId tool random now =
     (case generateRequestId_loop 100 (pending tool) random 0 of
        Some i \<Rightarrow> i
      | None \<Rightarrow> slice_last4 (toString16 now))"

subsection \<open>Requests\<close>

text \<open>
  What one call of \<open>requestPermission\<close> reads from outside: the random draws, \<open>Date.now()\<close>
  when the id is generated, whether \<open>sendMessage\<close> succeeds, and the time at which the
  request is stored and its timer is set.
\<close>

record RequestEnv =
  random :: "nat \<Rightarrow> nat"
  clock_generate :: nat
  send_ok :: bool
  clock_register :: nat

datatype Outcome = Resolved PermissionResult | Waiting nat

definition requestPermission ::
  "AgentRegistry \<Rightarrow> RequestEnv \<Rightarrow> PermissionPromptTool \<Rightarrow> string \<Rightarrow> string \<Rightarrow> string \<Rightarrow> string
     \<Rightarrow> Outcome \<times> PermissionPromptTool" where
  "requestPermission reg env tool agentId act descr det =
     (case get reg agentId of
        None \<Rightarrow> (Resolved \<lparr>approved = False, reason = Some ''Agent not found''\<rparr>, tool)
      | Some _ \<Rightarrow>
          (let requestId = generateRequestId tool (random env) (clock_generate env)
           in if \<not> send_ok env then
                (Resolved \<lparr>approved = False, reason = Some ''Failed to send permission request''\<rparr>,
                 tool)
              else
                (let h = next_handle tool;
                     timer = \<lparr>t_handle = h, due = clock_register env + timeoutMs tool,
                              t_requestId = requestId, t_resolve = h\<rparr>;
                     entry = \<lparr>p_id = requestId, p_agentId = agentId, action = act,
                              description = descr, details = det,
                              p_createdAt = clock_register env, resolve = h, timeoutHandle = h\<rparr>
                 in (Waiting h,
                     tool\<lparr>prompts := prompts tool @ [(agentId, requestId)],
                          timers := timers tool @ [timer],
                          pending := AList.update requestId entry (pending tool),
                          next_handle := Suc h\<rparr>))))"

text \<open>
  The runtime runs the callback of a live timer: the timer is spent, the callback deletes
  the request id from \<open>pending\<close> and resolves its promise as a denial with reason
  \<open>timeout\<close>. A timer that was cleared, or has fired, does not run.
\<close>

definition fire_timeout :: "PermissionPromptTool \<Rightarrow> nat \<Rightarrow> PermissionPromptTool" where
  "fire_timeout tool h =
     (case find (\<lambda>t. t_handle t = h) (timers tool) of
        None \<Rightarrow> tool
      | Some t \<Rightarrow>
          tool\<lparr>timers := clearTimeout h (timers tool),
               pending := AList.delete (t_requestId t) (pending tool),
               resolutions := resolutions tool
                 @ [(t_resolve t, \<lparr>approved = False, reason = Some ''timeout''\<rparr>)]\<rparr>)"

subsection \<open>Replies\<close>

definition response_tokens :: "string list" where
  "response_tokens =
     [''yes'', ''y'', ''ok'', ''approve'', ''allow'', ''no'', ''n'', ''deny'', ''reject'']"

definition affirmative :: "string list" where
  "affirmative = [''yes'', ''y'', ''ok'', ''approve'', ''allow'']"

definition is_hex_lower :: "char \<Rightarrow> bool" where
  "is_hex_lower c = (c \<in> set ''abcdef0123456789'')"

text \<open>
  The regular expression
  \<^verbatim>\<open>/^(?:([a-f0-9]{4})\s+)?(yes|y|ok|approve|allow|no|n|deny|reject)$/\<close>:
  the result holds the two groups. No token contains white space or is longer than
  seven units, so the white space after an id is matched whole and at most one of the
  two forms applies.
\<close>

definition match_reply :: "string \<Rightarrow> (string option \<times> string) option" where
  "match_reply trimmed =
     (let idpart = take 4 trimmed;
          rest = drop 4 trimmed;
          response = dropWhile is_space rest
      in if length idpart = 4 \<and> list_all is_hex_lower idpart
            \<and> takeWhile is_space rest \<noteq> [] \<and> response \<in> set response_tokens
         then Some (Some idpart, response)
         else if trimmed \<in> set response_tokens then Some (None, trimmed)
         else None)"

definition getPending :: "PermissionPromptTool \<Rightarrow> string \<Rightarrow> PendingPermission list" where
  "getPending tool agentId = filter (\<lambda>p. p_agentId p = agentId) (map snd (pending tool))"

text \<open>\<open>Array.prototype.sort\<close> is stable, as \<open>sort_key\<close> is.\<close>

definition findOldestPending :: "PermissionPromptTool \<Rightarrow> string \<Rightarrow> PendingPermission option" where
  "findOldestPending tool agentId =
     (let agentPending = getPending tool agentId
      in if length agentPending = 0 then None
         else Some (hd (sort_key p_createdAt agentPending)))"

text \<open>The common tail of \<open>handleUserResponse\<close> once the request is found.\<close>

definition resolve_pending ::
  "PermissionPromptTool \<Rightarrow> PendingPermission \<Rightarrow> PermissionResult \<Rightarrow> PermissionPromptTool" where
  "resolve_pending tool p res =
     tool\<lparr>timers := clearTimeout (timeoutHandle p) (timers tool),
          pending := AList.delete (p_id p) (pending tool),
          resolutions := resolutions tool @ [(resolve p, res)]\<rparr>"

definition handleUserResponse ::
  "PermissionPromptTool \<Rightarrow> string \<Rightarrow> string \<Rightarrow> bool \<times> PermissionPromptTool" where
  "handleUserResponse tool agentId message =
     (case match_reply (toLowerCase (trim message)) of
        None \<Rightarrow> (False, tool)
      | Some (requestId, response) \<Rightarrow>
          (let result = \<lparr>approved = (response \<in> set affirmative), reason = None\<rparr>
           in case requestId of
                Some rid \<Rightarrow>
                  (case map_of (pending tool) rid of
                     None \<Rightarrow> (True, tool)
                   | Some p \<Rightarrow>
                       if p_agentId p \<noteq> agentId then (True, tool)
                       else (True, resolve_pending tool p result))
              | None \<Rightarrow>
                  (case findOldestPending tool agentId of
                     None \<Rightarrow> (True, tool)
                   | Some p \<Rightarrow> (True, resolve_pending tool p result))))"

definition cancelAll :: "PermissionPromptTool \<Rightarrow> string \<Rightarrow> PermissionPromptTool" where
  "cancelAll tool agentId =
     foldl (\<lambda>t p. resolve_pending t p \<lparr>approved = False, reason = Some ''cancelled''\<rparr>)
           tool (getPending tool agentId)"

subsection \<open>Histories of the tool\<close>

datatype Event =
    Request AgentRegistry RequestEnv string string string string
  | Reply string string
  | CancelAll string
  | Timeout nat

fun tool_step :: "PermissionPromptTool \<Rightarrow> Event \<Rightarrow> PermissionPromptTool" where
  "tool_step tool (Request reg env agentId act descr det) =
     snd (requestPermission reg env tool agentId act descr det)"
| "tool_step tool (Reply agentId message) = snd (handleUserResponse tool agentId message)"
| "tool_step tool (CancelAll agentId) = cancelAll tool agentId"
| "tool_step tool (Timeout h) = fire_timeout tool h"

definition run :: "PermissionPromptTool \<Rightarrow> Event list \<Rightarrow> PermissionPromptTool" where
  "run tool evs = foldl tool_step tool evs"

text \<open>The results with which the promise \<open>h\<close> has been resolved, in order.\<close>

definition results_of :: "nat \<Rightarrow> PermissionPromptTool \<Rightarrow> PermissionResult list" where
  "results_of h tool = map snd (filter (\<lambda>r. fst r = h) (resolutions tool))"

definition timer_of :: "nat \<Rightarrow> PermissionPromptTool \<Rightarrow> Timer option" where
  "timer_of h tool = find (\<lambda>t. t_handle t = h) (timers tool)"

definition entries_of :: "nat \<Rightarrow> PermissionPromptTool \<Rightarrow> PendingPermission list" where
  "entries_of h tool = filter (\<lambda>p. resolve p = h \<or> timeoutHandle p = h) (map snd (pending tool))"

subsection \<open>Shape of the tool's state\<close>

text \<open>
  Handles are issued in increasing order: every handle in use lies below \<open>next_handle\<close>,
  and a request's promise and timer carry the same one.
\<close>

definition handles_ok :: "PermissionPromptTool \<Rightarrow> bool" where
  "handles_ok tool =
     (list_all (\<lambda>p. resolve p = timeoutHandle p \<and> timeoutHandle p < next_handle tool)
        (map snd (pending tool))
      \<and> list_all (\<lambda>t. t_resolve t = t_handle t \<and> t_handle t < next_handle tool) (timers tool)
      \<and> list_all (\<lambda>r. fst r < next_handle tool) (resolutions tool))"

text \<open>
  \<open>keeps h s s'\<close>: going from \<open>s\<close> to \<open>s'\<close>, the promise \<open>h\<close> was not resolved, the timer
  \<open>h\<close> was neither set nor removed, and no request carrying \<open>h\<close> was stored.
\<close>

definition keeps :: "nat \<Rightarrow> PermissionPromptTool \<Rightarrow> PermissionPromptTool \<Rightarrow> bool" where
  "keeps h s s' =
     (results_of h s' = results_of h s \<and> timer_of h s' = timer_of h s
      \<and> set (entries_of h s') \<subseteq> set (entries_of h s) \<and> next_handle s \<le> next_handle s')"

text \<open>
  Keys of the pending map are distinct and every request is stored under its own id.
\<close>

definition pending_ok :: "PermissionPromptTool \<Rightarrow> bool" where
  "pending_ok tool =
     (distinct (map fst (pending tool)) \<and> list_all (\<lambda>(k, p). p_id p = k) (pending tool))"

text \<open>
  A tool with three pending requests: two of agent \<open>swift-fox\<close>, and between them one
  of agent \<open>bold-owl\<close>.
\<close>

definition demo_pending :: "string \<Rightarrow> string \<Rightarrow> nat \<Rightarrow> nat \<Rightarrow> PendingPermission" where
  "demo_pending i a t h = \<lparr>p_id = i, p_agentId = a, action = ''Bash'',
     description = ''Run a shell command'', details = ''{}'', p_createdAt = t, resolve = h,
     timeoutHandle = h\<rparr>"

definition demo_tool :: PermissionPromptTool where
  "demo_tool =
     \<lparr>timeoutMs = 300000,
      pending = [(''a1b2'', demo_pending ''a1b2'' ''swift-fox'' 100 0),
                 (''0f0f'', demo_pending ''0f0f'' ''bold-owl'' 150 1),
                 (''c3d4'', demo_pending ''c3d4'' ''swift-fox'' 200 2)],
      timers = [\<lparr>t_handle = 0, due = 300100, t_requestId = ''a1b2'', t_resolve = 0\<rparr>,
                \<lparr>t_handle = 1, due = 300150, t_requestId = ''0f0f'', t_resolve = 1\<rparr>,
                \<lparr>t_handle = 2, due = 300200, t_requestId = ''c3d4'', t_resolve = 2\<rparr>],
      resolutions = [],
      prompts = [(''swift-fox'', ''a1b2''), (''bold-owl'', ''0f0f''), (''swift-fox'', ''c3d4'')],
      next_handle = 3\<rparr>"

text \<open>
  One known agent, and a tool whose only pending request has the id \<open>0000\<close>; an
  environment in which every random draw is 0 and the clock reads a multiple of
  \<open>0x10000\<close> milliseconds when the id is generated.
\<close>

definition demo_agent :: Agent where
  "demo_agent =
     \<lparr>a_id = ''swift-fox'', a_type = ''claude-code'', jid = ''swift-fox@localhost'',
      workDir = ''/work/proj-x'', a_createdAt = ''2025-01-01T00:00:00.000Z'',
      createdBy = ''op@localhost'', status = running, pid = None,
      sessionId = Some ''sess-1''\<rparr>"

definition demo_registry :: AgentRegistry where
  "demo_registry =
     \<lparr>agents = [(''swift-fox'', demo_agent)],
      persistence = \<lparr>state_agents = [demo_agent], disk = [demo_agent], writable = True\<rparr>\<rparr>"

definition collide_tool :: PermissionPromptTool where
  "collide_tool =
     \<lparr>timeoutMs = 300000,
      pending = [(''0000'', demo_pending ''0000'' ''swift-fox'' 100 0)],
      timers = [\<lparr>t_handle = 0, due = 300100, t_requestId = ''0000'', t_resolve = 0\<rparr>],
      resolutions = [], prompts = [(''swift-fox'', ''0000'')], next_handle = 1\<rparr>"

definition collide_env :: RequestEnv where
  "collide_env = \<lparr>random = (\<lambda>k. 0), clock_generate = 1730000060416, send_ok = True,
     clock_register = 1730000060420\<rparr>"

text \<open>A tool whose only pending request has the id \<open>c3d4\<close>.\<close>

definition c3d4_tool :: PermissionPromptTool where
  "c3d4_tool =
     \<lparr>timeoutMs = 300000,
      pending = [(''c3d4'', demo_pending ''c3d4'' ''swift-fox'' 100 0)],
      timers = [\<lparr>t_handle = 0, due = 300100, t_requestId = ''c3d4'', t_resolve = 0\<rparr>],
      resolutions = [], prompts = [(''swift-fox'', ''c3d4'')], next_handle = 1\<rparr>"

subsection \<open>Histories that leave a request alone\<close>

text \<open>
  The event is a reply or a cancellation that resolves the promise \<open>h\<close>.
\<close>

definition answered :: "nat \<Rightarrow> PermissionPromptTool \<Rightarrow> Event \<Rightarrow> bool" where
  "answered h tool e =
     (case e of
        Reply agentId message \<Rightarrow> results_of h (tool_step tool e) \<noteq> results_of h tool
      | CancelAll agentId \<Rightarrow> results_of h (tool_step tool e) \<noteq> results_of h tool
      | _ \<Rightarrow> False)"

text \<open>
  Along the history, started in \<open>tool\<close>, the timer \<open>h\<close> does not fire and no reply or
  cancellation resolves the promise \<open>h\<close>.
\<close>

fun undisturbed :: "nat \<Rightarrow> PermissionPromptTool \<Rightarrow> Event list \<Rightarrow> bool" where
  "undisturbed h tool [] = True"
| "undisturbed h tool (e # evs) =
     (e \<noteq> Timeout h \<and> \<not> answered h tool e \<and> undisturbed h (tool_step tool e) evs)"

text \<open>
  A request of \<open>swift-fox\<close> on a fresh tool, whose first random draw is \<open>0xa1b2\<close>, and
  the state in which it waits.
\<close>

definition request_env :: RequestEnv where
  "request_env = \<lparr>random = (\<lambda>k. 0xa1b2), clock_generate = 1000, send_ok = True,
     clock_register = 1001\<rparr>"

definition waiting_tool :: PermissionPromptTool where
  "waiting_tool =
     \<lparr>timeoutMs = 300000,
      pending = [(''a1b2'',
        \<lparr>p_id = ''a1b2'', p_agentId = ''swift-fox'', action = ''Bash'',
         description = ''Run a shell command'', details = ''{}'', p_createdAt = 1001,
         resolve = 0, timeoutHandle = 0\<rparr>)],
      timers = [\<lparr>t_handle = 0, due = 301001, t_requestId = ''a1b2'', t_resolve = 0\<rparr>],
      resolutions = [], prompts = [(''swift-fox'', ''a1b2'')], next_handle = 1\<rparr>"

text \<open>
  While that request waits: another agent replies and is cancelled, \<open>swift-fox\<close>
  answers a request id that is not pending, a timer that does not exist is fired. And
  after its timeout: \<open>swift-fox\<close> replies, is cancelled, and the timer is fired again.
\<close>

definition quiet_events :: "Event list" where
  "quiet_events =
     [Reply ''bold-owl'' ''yes'', CancelAll ''bold-owl'', Reply ''swift-fox'' ''c3d4 yes'',
      Timeout 7]"

definition later_events :: "Event list" where
  "later_events = [Reply ''swift-fox'' ''yes'', CancelAll ''swift-fox'', Timeout 0]"

section \<open>Subprocess adapter (agents/claude-code.ts)\<close>

text \<open>
  \<open>ClaudeCodeProcess\<close>. \<open>killed\<close> and \<open>exitCode\<close> are the two fields of the subprocess that
  \<open>isAlive\<close> reads; \<open>stdin\<close> lists the texts of the user turns written to the subprocess,
  each as one JSON line, in order.
\<close>

record ClaudeCodeProcess =
  killed :: bool
  exitCode :: "int option"
  c_sessionId :: "string option"
  messageQueue :: "string list"
  isReady :: bool
  stdin :: "string list"

definition new_process :: ClaudeCodeProcess where
  "new_process = \<lparr>killed = False, exitCode = None, c_sessionId = None, messageQueue = [],
     isReady = True, stdin = []\<rparr>"

definition isAlive :: "ClaudeCodeProcess \<Rightarrow> bool" where
  "isAlive p = (\<not> killed p \<and> exitCode p = None)"

definition writeMessage :: "ClaudeCodeProcess \<Rightarrow> string \<Rightarrow> ClaudeCodeProcess" where
  "writeMessage p text = p\<lparr>stdin := stdin p @ [text], isReady := False\<rparr>"

definition send :: "ClaudeCodeProcess \<Rightarrow> string \<Rightarrow> (error + unit) \<times> ClaudeCodeProcess" where
  "send p message =
     (if \<not> isAlive p then (Inl (Error ''Cannot send message to terminated process''), p)
      else if \<not> isReady p then (Inr (), p\<lparr>messageQueue := messageQueue p @ [message]\<rparr>)
      else (Inr (), writeMessage p message))"

text \<open>
  \<open>processQueue\<close>: \<open>shift()\<close> takes the first queued message; \<open>if (next)\<close> is false for an
  empty queue (\<open>undefined\<close>) and for the empty string.
\<close>

definition processQueue :: "ClaudeCodeProcess \<Rightarrow> ClaudeCodeProcess" where
  "processQueue p =
     (case messageQueue p of
        [] \<Rightarrow> p\<lparr>isReady := True\<rparr>
      | next # rest \<Rightarrow>
          (if next \<noteq> [] then writeMessage (p\<lparr>messageQueue := rest\<rparr>) next
           else p\<lparr>messageQueue := rest, isReady := True\<rparr>))"

datatype Content = Text string | ToolUse string string string

text \<open>A decoded line of the subprocess's output; \<open>Other\<close> is any other \<open>type\<close>.\<close>

datatype ClaudeCodeEvent =
    Init string string
  | Assistant "Content list"
  | Result string string
  | Other

datatype StructuredMessage =
    session_started string string
  | tool_use string string string
  | turn_complete string string

datatype OutputChunk = text_chunk string | structured StructuredMessage

text \<open>The body of the \<open>switch\<close> in \<open>createOutputIterator\<close>: the chunks yielded for one event.\<close>

fun handle_event :: "ClaudeCodeProcess \<Rightarrow> ClaudeCodeEvent \<Rightarrow> OutputChunk list \<times> ClaudeCodeProcess" where
  "handle_event p (Init session_id assistant_mode) =
     ([structured (session_started session_id assistant_mode)], p\<lparr>c_sessionId := Some session_id\<rparr>)"
| "handle_event p (Assistant content) =
     (map (\<lambda>c. case c of Text t \<Rightarrow> text_chunk t
                 | ToolUse i n inp \<Rightarrow> structured (tool_use i n inp)) content, p)"
| "handle_event p (Result session_id stop_reason) =
     ([structured (turn_complete session_id stop_reason)],
      processQueue (p\<lparr>c_sessionId := Some session_id\<rparr>))"
| "handle_event p Other = ([], p)"

subsection \<open>Histories of one subprocess\<close>

datatype ProcInput = Send string | Decoded ClaudeCodeEvent

fun proc_step :: "ClaudeCodeProcess \<Rightarrow> ProcInput \<Rightarrow> ClaudeCodeProcess" where
  "proc_step p (Send message) = snd (send p message)"
| "proc_step p (Decoded ev) = snd (handle_event p ev)"

text \<open>
  What an observer of the two pipes sees: a turn written to the input, or a \<open>result\<close>
  event decoded from the output. A \<open>result\<close> is decoded before \<open>processQueue\<close> writes.
\<close>

datatype Observation = Written string | ResultDecoded

fun is_result :: "ProcInput \<Rightarrow> bool" where
  "is_result (Decoded (Result session_id stop_reason)) = True"
| "is_result _ = False"

fun observe :: "ClaudeCodeProcess \<Rightarrow> ProcInput list \<Rightarrow> Observation list" where
  "observe p [] = []"
| "observe p (i # inputs) =
     (if is_result i then [ResultDecoded] else [])
     @ map Written (drop (length (stdin p)) (stdin (proc_step p i)))
     @ observe (proc_step p i) inputs"

text \<open>
  \<open>serialized in_flight obs\<close>: no turn is written while one is in flight, where a written
  turn is in flight until the next \<open>result\<close>.
\<close>

fun serialized :: "bool \<Rightarrow> Observation list \<Rightarrow> bool" where
  "serialized in_flight [] = True"
| "serialized in_flight (ResultDecoded # obs) = serialized False obs"
| "serialized in_flight (Written t # obs) = (\<not> in_flight \<and> serialized True obs)"

text \<open>
  A live process whose queue is empty whenever it is ready and holds no empty message;
  and the messages of the \<open>send\<close> calls of a history, in order.
\<close>

definition queue_ok :: "ClaudeCodeProcess \<Rightarrow> bool" where
  "queue_ok p = (isAlive p \<and> (isReady p \<longrightarrow> messageQueue p = []) \<and> [] \<notin> set (messageQueue p))"

fun sent_messages :: "ProcInput list \<Rightarrow> string list" where
  "sent_messages [] = []"
| "sent_messages (Send m # inputs) = m # sent_messages inputs"
| "sent_messages (Decoded ev # inputs) = sent_messages inputs"

section \<open>Incoming messages of an agent session (xmpp/agent-bot.ts)\<close>

datatype Dispatch = ignored | quit_command | status_command | help_command | forwarded | send_failed

definition bare_jid :: "string \<Rightarrow> string" where
  "bare_jid j = takeWhile (\<lambda>c. c \<noteq> CHR ''/'') j"

text \<open>
  \<open>handleIncomingMessage\<close>: which branch the message takes, and the subprocess after it.
  The three reserved commands are handled by methods of their own.
\<close>

definition handleIncomingMessage ::
  "string \<Rightarrow> ClaudeCodeProcess \<Rightarrow> string \<Rightarrow> string \<Rightarrow> Dispatch \<times> ClaudeCodeProcess" where
  "handleIncomingMessage userJid agentProcess from body =
     (if bare_jid from \<noteq> bare_jid userJid then (ignored, agentProcess)
      else
        (let trimmed = trim body;
             lowerCased = toLowerCase trimmed
         in if lowerCased = ''quit'' \<or> lowerCased = ''exit'' then (quit_command, agentProcess)
            else if lowerCased = ''status'' then (status_command, agentProcess)
            else if lowerCased = ''help'' \<or> lowerCased = ''?'' then (help_command, agentProcess)
            else (case send agentProcess trimmed of
                    (Inl e, p') \<Rightarrow> (send_failed, p')
                  | (Inr u, p') \<Rightarrow> (forwarded, p'))))"

section \<open>Spawning and recovery (agents/adapter.ts, agents/claude-code.ts, agents/recovery.ts)\<close>

record AgentConfig =
  c_workDir :: string
  c_initialPrompt :: "string option"
  c_agentId :: string
  mcpServerUrl :: string
  resumeSessionId :: "string option"

text \<open>Truthiness of an optional string: present and not empty.\<close>

definition truthy :: "string option \<Rightarrow> bool" where
  "truthy s = (case s of None \<Rightarrow> False | Some v \<Rightarrow> v \<noteq> [])"

definition spawn_args :: "AgentConfig \<Rightarrow> string list" where
  "spawn_args config =
     [''claude'', ''-p'', ''--verbose'', ''--output-format'', ''stream-json'',
      ''--input-format'', ''stream-json'', ''--permission-prompt-tool'',
      ''mcp__agent_chat__permission_prompt'', ''--mcp-config'',
      ''/tmp/agent-chat-'' @ c_agentId config @ ''-mcp.json'']
     @ (case resumeSessionId config of
          Some sid \<Rightarrow> (if sid \<noteq> [] then [''--resume'', sid] else [])
        | None \<Rightarrow> [])"

text \<open>
  The service: the registry, the subprocesses spawned so far (configuration and argument
  vector), the agents that have a session handler, and the permission tool.
\<close>

record Service =
  registry :: AgentRegistry
  spawned :: "(AgentConfig \<times> string list) list"
  agentHandlers :: "string list"
  permissionTool :: PermissionPromptTool

text \<open>
  \<open>ClaudeCodeAdapter.spawn\<close>. Writing the MCP configuration and starting the subprocess
  may fail: \<open>spawn_error\<close> gives the error for a configuration, if any.
\<close>

definition spawn ::
  "(AgentConfig \<Rightarrow> error option) \<Rightarrow> Service \<Rightarrow> AgentConfig \<Rightarrow> (error + ClaudeCodeProcess) \<times> Service" where
  "spawn spawn_error svc config =
     (case spawn_error config of
        Some e \<Rightarrow> (Inl e, svc)
      | None \<Rightarrow>
          (let claudeProcess =
                 (case c_initialPrompt config of
                    Some prompt \<Rightarrow>
                      (if prompt \<noteq> [] \<and> \<not> truthy (resumeSessionId config)
                       then snd (send new_process prompt) else new_process)
                  | None \<Rightarrow> new_process)
           in (Inr claudeProcess, svc\<lparr>spawned := spawned svc @ [(config, spawn_args config)]\<rparr>)))"

record RecoveryResult =
  success :: bool
  resumed :: bool
  r_process :: "ClaudeCodeProcess option"
  r_error :: "string option"

record Decision =
  shouldRecover :: bool
  d_reason :: string

definition show_int :: "int \<Rightarrow> string" where
  "show_int i = (if i < 0 then ''-'' @ show_nat (nat (- i)) else show_nat (nat i))"

definition handleProcessExit :: "Agent \<Rightarrow> int option \<Rightarrow> Decision" where
  "handleProcessExit ag exit_code =
     (case exit_code of
        None \<Rightarrow> \<lparr>shouldRecover = False, d_reason = ''Process was killed intentionally''\<rparr>
      | Some code \<Rightarrow>
          if code = 0 then \<lparr>shouldRecover = False, d_reason = ''Process exited normally''\<rparr>
          else if code \<ge> 128 then
            \<lparr>shouldRecover = False,
             d_reason = ''Process terminated by signal (exit code '' @ show_int code @ '')''\<rparr>
          else if code = 127 then
            \<lparr>shouldRecover = False,
             d_reason = ''Command not found - check Claude Code installation''\<rparr>
          else
            \<lparr>shouldRecover = True,
             d_reason = ''Process crashed with exit code '' @ show_int code\<rparr>)"

definition set_status :: "Service \<Rightarrow> string \<Rightarrow> AgentStatus \<Rightarrow> (error + unit) \<times> Service" where
  "set_status svc i st =
     (let (res, r) = update (registry svc) i (no_updates\<lparr>u_status := Some st\<rparr>)
      in (res, svc\<lparr>registry := r\<rparr>))"

text \<open>The \<open>catch\<close> clause of \<open>recover\<close>; the update in it may throw in turn.\<close>

definition recover_failed :: "Service \<Rightarrow> Agent \<Rightarrow> error \<Rightarrow> (error + RecoveryResult) \<times> Service" where
  "recover_failed svc ag e =
     (case set_status svc (a_id ag) stopped of
        (Inl e', svc') \<Rightarrow> (Inl e', svc')
      | (Inr u, svc') \<Rightarrow>
          (Inr \<lparr>success = False, resumed = False, r_process = None,
                r_error = Some (error_message e)\<rparr>, svc'))"

definition recover ::
  "(AgentConfig \<Rightarrow> error option) \<Rightarrow> string \<Rightarrow> Service \<Rightarrow> Agent \<Rightarrow> (error + RecoveryResult) \<times> Service" where
  "recover spawn_error url svc ag =
     (case set_status svc (a_id ag) starting of
        (Inl e, svc1) \<Rightarrow> recover_failed svc1 ag e
      | (Inr u, svc1) \<Rightarrow>
          (let canResume = truthy (sessionId ag);
               config = \<lparr>c_workDir = workDir ag, c_initialPrompt = None, c_agentId = a_id ag,
                         mcpServerUrl = url,
                         resumeSessionId = (if canResume then sessionId ag else None)\<rparr>
           in case spawn spawn_error svc1 config of
                (Inl e, svc2) \<Rightarrow> recover_failed svc2 ag e
              | (Inr process, svc2) \<Rightarrow>
                  (case set_status svc2 (a_id ag) running of
                     (Inl e, svc3) \<Rightarrow> recover_failed svc3 ag e
                   | (Inr u', svc3) \<Rightarrow>
                       (Inr \<lparr>success = True, resumed = canResume, r_process = Some process,
                             r_error = None\<rparr>, svc3))))"

definition attemptAutoRecovery ::
  "(AgentConfig \<Rightarrow> error option) \<Rightarrow> string \<Rightarrow> Service \<Rightarrow> Agent \<Rightarrow> int option
     \<Rightarrow> (error + RecoveryResult option) \<times> Service" where
  "attemptAutoRecovery spawn_error url svc ag exit_code =
     (let decision = handleProcessExit ag exit_code
      in if \<not> shouldRecover decision then
           (case set_status svc (a_id ag) stopped of
              (Inl e, svc') \<Rightarrow> (Inl e, svc')
            | (Inr u, svc') \<Rightarrow> (Inr None, svc'))
         else
           (case recover spawn_error url svc ag of
              (Inl e, svc') \<Rightarrow> (Inl e, svc')
            | (Inr res, svc') \<Rightarrow> (Inr (Some res), svc')))"

section \<open>Agent lifecycle in the entry point (index.ts)\<close>

datatype StopReason = user_quit | process_exit | error_stop

record AgentStoppedEvent =
  s_agentId :: string
  s_reason :: StopReason

text \<open>
  The callback \<open>handleAgentCreated\<close> registers with \<open>handler.onStopped\<close>. The result is
  the value of its local \<open>recoveryResult\<close> (\<open>None\<close> when recovery is not reached or
  declined), or the error that escapes.
\<close>

definition onStopped ::
  "(AgentConfig \<Rightarrow> error option) \<Rightarrow> string \<Rightarrow> Service \<Rightarrow> AgentStoppedEvent
     \<Rightarrow> (error + RecoveryResult option) \<times> Service" where
  "onStopped spawn_error url svc stoppedEvent =
     (let svc1 = svc\<lparr>agentHandlers := removeAll (s_agentId stoppedEvent) (agentHandlers svc),
                     permissionTool := cancelAll (permissionTool svc) (s_agentId stoppedEvent)\<rparr>
      in case set_status svc1 (s_agentId stoppedEvent) stopped of
           (Inl e, svc2) \<Rightarrow> (Inl e, svc2)
         | (Inr u, svc2) \<Rightarrow>
             (if s_reason stoppedEvent = process_exit then
                (case get (registry svc2) (s_agentId stoppedEvent) of
                   None \<Rightarrow> (Inr None, svc2)
                 | Some currentAgent \<Rightarrow> attemptAutoRecovery spawn_error url svc2 currentAgent None)
              else (Inr None, svc2)))"

text \<open>
  The callback registered with \<open>agentProcess.onExit\<close>, for the agent \<open>i\<close>, the exit code
  and the session id the process holds.
\<close>

definition onExit :: "Service \<Rightarrow> string \<Rightarrow> int option \<Rightarrow> string option \<Rightarrow> (error + unit) \<times> Service" where
  "onExit svc i exit_code process_sessionId =
     (if exit_code \<noteq> Some 0 \<and> exit_code \<noteq> None then
        (case get (registry svc) i of
           None \<Rightarrow> (Inr (), svc)
         | Some currentAgent \<Rightarrow>
             (if status currentAgent = running \<and> truthy process_sessionId then
                (let (res, r) = update (registry svc) i
                                  (no_updates\<lparr>u_sessionId := Some process_sessionId\<rparr>)
                 in (res, svc\<lparr>registry := r\<rparr>))
              else (Inr (), svc)))
      else (Inr (), svc))"

text \<open>
  A service with one running agent that holds the resume token \<open>sess-1\<close>; spawning
  always succeeds.
\<close>

definition demo_service :: Service where
  "demo_service = \<lparr>registry = demo_registry, spawned = [], agentHandlers = [''swift-fox''],
     permissionTool = new_tool 300000\<rparr>"

definition spawn_succeeds :: "AgentConfig \<Rightarrow> error option" where
  "spawn_succeeds config = None"

definition demo_url :: string where
  "demo_url = ''http://localhost:3001/mcp''"

section \<open>Properties of the registry\<close>

text \<open>
  C9. An update for an id that is not registered returns the error
  \<open>Agent not found: <id>\<close> to the caller and leaves the registry, that is the agent map
  and the persisted state, exactly as it was.
\<close>

theorem update_unknown_id:
  "map_of (agents r) i = None \<Longrightarrow> update r i updates = (Inl (Error (''Agent not found: '' @ i)), r)"
  by (simp add: update_def)

theorem update_unknown_id_witness:
  "map_of (agents empty_registry) ''swift-fox'' = None
   \<and> update empty_registry ''swift-fox'' (no_updates\<lparr>u_status := Some running\<rparr>)
       = (Inl (Error ''Agent not found: swift-fox''), empty_registry)"
  using update_unknown_id [of empty_registry "''swift-fox''" "no_updates\<lparr>u_status := Some running\<rparr>"]
  by (simp add: empty_registry_def)

section \<open>Properties of the manager conversation\<close>

lemma cancel_from_awaiting_repo:
  assumes "map_of (conversations mb) userJid = Some state" and "step state = awaiting_repo"
  shows "handleConversationStep env mb userJid ''cancel'' =
           mb\<lparr>sent := sent mb @ [(userJid, ''Agent creation cancelled.'')],
              conversations := AList.update userJid (state\<lparr>step := idle\<rparr>) (conversations mb)\<rparr>"
  using assms
  by (simp add: handleConversationStep_def handleRepoSelection_def sendMessage_def
      toLowerCase_def toLowerCase_char_def upper_chars_def lower_chars_def)

lemma cancel_from_awaiting_task:
  assumes "map_of (conversations mb) userJid = Some state" and "step state = awaiting_task"
  shows "handleConversationStep env mb userJid ''cancel'' =
           mb\<lparr>sent := sent mb @ [(userJid, ''Agent creation cancelled.'')],
              conversations := AList.update userJid (state\<lparr>step := idle\<rparr>) (conversations mb)\<rparr>"
  using assms
  by (simp add: handleConversationStep_def handleTaskInput_def sendMessage_def
      toLowerCase_def toLowerCase_char_def upper_chars_def lower_chars_def)

lemma cancel_from_awaiting_type:
  assumes "map_of (conversations mb) userJid = Some state" and "step state = awaiting_type"
  shows "handleConversationStep env mb userJid ''cancel'' =
           mb\<lparr>sent := sent mb @ [(userJid,
                ''Invalid selection. Please enter '1' for Claude Code or type 'cancel' to abort.'')],
              conversations := AList.update userJid state (conversations mb)\<rparr>"
  using assms
  by (simp add: handleConversationStep_def handleTypeSelection_def sendMessage_def
      startsWith_def toLowerCase_def toLowerCase_char_def upper_chars_def lower_chars_def)

text \<open>
  C8. From \<open>awaiting_repo\<close> and \<open>awaiting_task\<close> the input \<open>cancel\<close> leads to \<open>idle\<close>
  and only sends a message (lemmas above). From \<open>awaiting_type\<close> it does not:
  \<open>handleTypeSelection\<close> has no branch for it, answers that the selection is invalid
  (in a message that itself offers \<open>cancel\<close>) and the conversation stays in
  \<open>awaiting_type\<close>.
\<close>

theorem cancel_ignored_in_awaiting_type:
  "handleConversationStep demo_env
     (demo_bot \<lparr>step = awaiting_type, agentType = None, repo = None\<rparr>) ''op@localhost'' ''cancel''
   = \<lparr>conversations = [(''op@localhost'', \<lparr>step = awaiting_type, agentType = None, repo = None\<rparr>)],
      m_registry = empty_registry,
      sent = [(''op@localhost'',
        ''Invalid selection. Please enter '1' for Claude Code or type 'cancel' to abort.'')],
      xmpp_users = [], emitted = [], rnd_pos = 0\<rparr>"
  by (simp add: handleConversationStep_def handleTypeSelection_def sendMessage_def demo_bot_def
      startsWith_def toLowerCase_def toLowerCase_char_def upper_chars_def lower_chars_def)

section \<open>Properties of the splitter\<close>

declare splitLoop.simps [simp del]

lemma concat_splitLoop: "concat (splitLoop remaining chunks) = concat chunks @ remaining"
proof (induction remaining chunks rule: splitLoop.induct)
  case (1 remaining chunks)
  show ?case
  proof (cases "length remaining > 0")
    case True
    with "1.IH" show ?thesis
      by (subst splitLoop.simps) simp
  next
    case False
    then show ?thesis
      by (subst splitLoop.simps) simp
  qed
qed

lemma lastIndexOf_at_limit:
  "length s = Suc position \<Longrightarrow> s ! position = c \<Longrightarrow> lastIndexOf s c position = int position"
  by (simp add: lastIndexOf_def)

lemma splitMessage_newline_at_limit:
  assumes "length content = Suc MAX_MESSAGE_SIZE" and "content ! MAX_MESSAGE_SIZE = newline"
  shows "splitMessage content = [content]"
proof -
  have idx: "splitIndex content = Suc MAX_MESSAGE_SIZE"
    using assms by (simp add: splitIndex_def lastIndexOf_at_limit MAX_MESSAGE_SIZE_def)
  have "splitLoop content [] = splitLoop [] [content]"
    using assms(1) by (subst splitLoop.simps) (simp add: idx)
  also have "\<dots> = [content]"
    by (subst splitLoop.simps) simp
  finally show ?thesis
    using assms(1) by (simp add: splitMessage_def)
qed

text \<open>
  C7. Splitting a text and concatenating the chunks in order gives the text back. This
  holds for every text, so in particular for every text longer than
  \<open>MAX_MESSAGE_SIZE\<close>.
\<close>

theorem splitMessage_roundtrip: "concat (splitMessage content) = content"
  by (simp add: splitMessage_def concat_splitLoop)

text \<open>No chunk is longer than the limit plus one.\<close>

lemma scan_back_less: "scan_back s c n < int n"
  by (induction n) auto

lemma splitIndex_le: "splitIndex remaining \<le> Suc MAX_MESSAGE_SIZE"
proof -
  have "lastIndexOf remaining newline MAX_MESSAGE_SIZE < int (Suc MAX_MESSAGE_SIZE)"
    using scan_back_less [of remaining newline "min (Suc MAX_MESSAGE_SIZE) (length remaining)"]
    by (simp add: lastIndexOf_def)
  then show ?thesis
    by (auto simp: splitIndex_def Let_def)
qed

lemma splitLoop_chunks_bounded:
  assumes "\<forall>c \<in> set chunks. length c \<le> Suc MAX_MESSAGE_SIZE"
  shows "\<forall>c \<in> set (splitLoop remaining chunks). length c \<le> Suc MAX_MESSAGE_SIZE"
  using assms
proof (induction remaining chunks rule: splitLoop.induct)
  case (1 remaining chunks)
  show ?case
  proof (cases "length remaining > 0")
    case True
    have "\<forall>c \<in> set (chunks @ [take (splitIndex remaining) remaining]).
            length c \<le> Suc MAX_MESSAGE_SIZE"
      using "1.prems" splitIndex_le [of remaining] by auto
    with "1.IH" [OF True] True show ?thesis
      by (subst splitLoop.simps) simp
  next
    case False
    with "1.prems" show ?thesis
      by (subst splitLoop.simps) simp
  qed
qed

lemma splitMessage_chunks_bounded:
  "c \<in> set (splitMessage content) \<Longrightarrow> length c \<le> MAX_MESSAGE_SIZE + 1"
  using splitLoop_chunks_bounded [of "[]" content]
  by (auto simp: splitMessage_def split: if_splits)

text \<open>
  C10. The bound fails when a newline sits exactly at index \<open>MAX_MESSAGE_SIZE\<close>:
  \<open>lastIndexOf\<close> starts its search at that index, so the cut falls one unit later.
  For 65536 letters \<open>a\<close> followed by a newline the splitter returns the whole text as
  one chunk of 65537 units.
\<close>

theorem splitMessage_chunk_exceeds_limit:
  "splitMessage (replicate 65536 0x61 @ [newline]) = [replicate 65536 0x61 @ [newline]]
   \<and> length (replicate 65536 (0x61 :: code_unit) @ [newline]) = 65537
   \<and> MAX_MESSAGE_SIZE = 65536"
proof -
  have "splitMessage (replicate MAX_MESSAGE_SIZE 0x61 @ [newline])
        = [replicate MAX_MESSAGE_SIZE 0x61 @ [newline]]"
    by (rule splitMessage_newline_at_limit) (simp_all add: nth_append)
  then show ?thesis
    by (simp add: MAX_MESSAGE_SIZE_def)
qed

section \<open>Properties of the permission prompt tool\<close>

subsection \<open>The pending map\<close>

text \<open>The empty map satisfies \<open>pending_ok\<close> and every operation keeps it.\<close>

lemma list_all_update:
  "list_all P al \<Longrightarrow> P (k, v) \<Longrightarrow> list_all P (AList.update k v al)"
  by (induction al) auto

lemma list_all_delete: "list_all P al \<Longrightarrow> list_all P (AList.delete k al)"
  by (induction al) auto

lemma pending_ok_new: "pending_ok (new_tool ms)"
  by (simp add: pending_ok_def new_tool_def)

lemma pending_ok_resolve: "pending_ok tool \<Longrightarrow> pending_ok (resolve_pending tool p res)"
  by (simp add: pending_ok_def resolve_pending_def distinct_delete list_all_delete)

lemma pending_ok_request:
  "pending_ok tool \<Longrightarrow> pending_ok (snd (requestPermission reg env tool a act descr det))"
  by (auto simp: pending_ok_def requestPermission_def Let_def distinct_update list_all_update
      split: option.splits)

lemma pending_ok_fire: "pending_ok tool \<Longrightarrow> pending_ok (fire_timeout tool h)"
  by (auto simp: pending_ok_def fire_timeout_def distinct_delete list_all_delete
      split: option.splits)

lemma pending_ok_reply: "pending_ok tool \<Longrightarrow> pending_ok (snd (handleUserResponse tool a m))"
  by (auto simp: handleUserResponse_def Let_def pending_ok_resolve split: option.splits)

lemma pending_ok_foldl:
  "pending_ok tool \<Longrightarrow> pending_ok (foldl (\<lambda>t p. resolve_pending t p res) tool ps)"
  by (induction ps arbitrary: tool) (simp_all add: pending_ok_resolve)

lemma pending_ok_cancel: "pending_ok tool \<Longrightarrow> pending_ok (cancelAll tool a)"
  by (simp add: cancelAll_def pending_ok_foldl)

lemma pending_ok_step: "pending_ok tool \<Longrightarrow> pending_ok (tool_step tool e)"
  by (cases e) (simp_all add: pending_ok_request pending_ok_reply pending_ok_cancel pending_ok_fire)

lemma pending_ok_run: "pending_ok tool \<Longrightarrow> pending_ok (run tool evs)"
  unfolding run_def by (induction evs arbitrary: tool) (simp_all add: pending_ok_step)

lemma pending_lookup:
  assumes "pending_ok tool" and "p \<in> set (map snd (pending tool))"
  shows "map_of (pending tool) (p_id p) = Some p"
proof -
  from assms(2) obtain k where kp: "(k, p) \<in> set (pending tool)"
    by auto
  with assms(1) have "p_id p = k"
    by (auto simp: pending_ok_def list_all_iff)
  with kp assms(1) show ?thesis
    by (simp add: pending_ok_def)
qed

subsection \<open>The oldest request\<close>

lemma hd_sort_key_least:
  assumes "xs \<noteq> []" and "q \<in> set xs"
  shows "f (hd (sort_key f xs)) \<le> f q"
proof -
  have ne: "sort_key f xs \<noteq> []"
    using assms(1) by (metis set_sort set_empty)
  then obtain y ys where ys: "sort_key f xs = y # ys"
    by (cases "sort_key f xs") auto
  have "sorted (map f (y # ys))"
    using sorted_sort_key [of f xs] by (simp add: ys)
  moreover have "q \<in> set (y # ys)"
    using assms(2) set_sort [of f xs] by (simp add: ys)
  ultimately show ?thesis
    by (auto simp: ys)
qed

lemma findOldestPending_Some:
  assumes "getPending tool agentId \<noteq> []"
  shows "\<exists>p. findOldestPending tool agentId = Some p \<and> p \<in> set (getPending tool agentId)
             \<and> (\<forall>q \<in> set (getPending tool agentId). p_createdAt p \<le> p_createdAt q)"
proof -
  let ?ps = "getPending tool agentId"
  let ?p = "hd (sort_key p_createdAt ?ps)"
  have "sort_key p_createdAt ?ps \<noteq> []"
    using assms by (metis set_sort set_empty)
  then have "?p \<in> set (sort_key p_createdAt ?ps)"
    by (rule hd_in_set)
  then have mem: "?p \<in> set ?ps"
    by simp
  have "findOldestPending tool agentId = Some ?p"
    using assms by (simp add: findOldestPending_def Let_def)
  with mem show ?thesis
    using hd_sort_key_least [OF assms] by blast
qed

text \<open>
  C3. A reply that holds a response token and no request id, for an agent with at least
  one pending request, is handled; it resolves one request \<open>p\<close> of that agent, stored
  under its id, whose creation time is least among the agent's pending requests; the
  promise of \<open>p\<close> is resolved once with the answer, the timer of \<open>p\<close> is cleared, and
  the pending map loses the id of \<open>p\<close> and nothing else.
\<close>

theorem reply_without_id_resolves_oldest:
  assumes "match_reply (toLowerCase (trim message)) = Some (None, response)"
    and "getPending tool agentId \<noteq> []"
    and "pending_ok tool"
  shows "\<exists>p. map_of (pending tool) (p_id p) = Some p \<and> p_agentId p = agentId
            \<and> (\<forall>q \<in> set (getPending tool agentId). p_createdAt p \<le> p_createdAt q)
            \<and> handleUserResponse tool agentId message =
                (True,
                 tool\<lparr>timers := clearTimeout (timeoutHandle p) (timers tool),
                      pending := AList.delete (p_id p) (pending tool),
                      resolutions := resolutions tool
                        @ [(resolve p, \<lparr>approved = (response \<in> set affirmative), reason = None\<rparr>)]\<rparr>)
            \<and> map_of (pending (snd (handleUserResponse tool agentId message)))
                = (map_of (pending tool))(p_id p := None)"
proof -
  from findOldestPending_Some [OF assms(2)] obtain p where
    found: "findOldestPending tool agentId = Some p"
    and mem: "p \<in> set (getPending tool agentId)"
    and least: "\<forall>q \<in> set (getPending tool agentId). p_createdAt p \<le> p_createdAt q"
    by blast
  from mem have agent: "p_agentId p = agentId" and stored: "p \<in> set (map snd (pending tool))"
    by (simp_all add: getPending_def)
  have lookup: "map_of (pending tool) (p_id p) = Some p"
    using assms(3) stored by (rule pending_lookup)
  have result: "handleUserResponse tool agentId message =
      (True,
       tool\<lparr>timers := clearTimeout (timeoutHandle p) (timers tool),
            pending := AList.delete (p_id p) (pending tool),
            resolutions := resolutions tool
              @ [(resolve p, \<lparr>approved = (response \<in> set affirmative), reason = None\<rparr>)]\<rparr>)"
    using assms(1) found by (simp add: handleUserResponse_def resolve_pending_def)
  have "map_of (pending (snd (handleUserResponse tool agentId message)))
        = (map_of (pending tool))(p_id p := None)"
    by (simp add: result delete_conv')
  with lookup agent least result show ?thesis
    by blast
qed

theorem reply_without_id_resolves_oldest_witness:
  "match_reply (toLowerCase (trim '' Yes '')) = Some (None, ''yes'')
   \<and> getPending demo_tool ''swift-fox'' \<noteq> []
   \<and> pending_ok demo_tool
   \<and> (\<exists>p. map_of (pending demo_tool) (p_id p) = Some p \<and> p_agentId p = ''swift-fox''
          \<and> (\<forall>q \<in> set (getPending demo_tool ''swift-fox''). p_createdAt p \<le> p_createdAt q)
          \<and> handleUserResponse demo_tool ''swift-fox'' '' Yes '' =
              (True,
               demo_tool\<lparr>timers := clearTimeout (timeoutHandle p) (timers demo_tool),
                    pending := AList.delete (p_id p) (pending demo_tool),
                    resolutions := resolutions demo_tool
                      @ [(resolve p, \<lparr>approved = (''yes'' \<in> set affirmative), reason = None\<rparr>)]\<rparr>)
          \<and> map_of (pending (snd (handleUserResponse demo_tool ''swift-fox'' '' Yes '')))
              = (map_of (pending demo_tool))(p_id p := None))
   \<and> map fst (pending (snd (handleUserResponse demo_tool ''swift-fox'' '' Yes ''))) = [''0f0f'', ''c3d4'']"
proof -
  have h1: "match_reply (toLowerCase (trim '' Yes '')) = Some (None, ''yes'')"
    by (simp add: match_reply_def trim_def is_space_def toLowerCase_def toLowerCase_char_def
        upper_chars_def lower_chars_def is_hex_lower_def response_tokens_def)
  have h2: "getPending demo_tool ''swift-fox'' \<noteq> []"
    by (simp add: getPending_def demo_tool_def demo_pending_def)
  have h3: "pending_ok demo_tool"
    by (simp add: pending_ok_def demo_tool_def demo_pending_def)
  have h4: "map fst (pending (snd (handleUserResponse demo_tool ''swift-fox'' '' Yes '')))
            = [''0f0f'', ''c3d4'']"
    by (simp add: handleUserResponse_def h1 findOldestPending_def getPending_def
        resolve_pending_def demo_tool_def demo_pending_def AList.delete_eq)
  from reply_without_id_resolves_oldest [OF h1 h2 h3] h1 h2 h3 h4 show ?thesis
    by blast
qed

subsection \<open>Request ids\<close>

lemma generateRequestId_loop_fresh:
  "generateRequestId_loop n pend draws k = Some i \<Longrightarrow> map_of pend i = None"
  by (induction n arbitrary: k) (auto simp: Let_def split: if_splits)

lemma generateRequestId_loop_exhausted:
  "map_of pend (padStart4 (toString16 0)) \<noteq> None
   \<Longrightarrow> generateRequestId_loop n pend (\<lambda>k. 0) k = None"
  by (induction n arbitrary: k) (simp_all add: Let_def)

text \<open>
  C5. While the loop finds an id, that id is not pending
  (\<open>generateRequestId_loop_fresh\<close>). The fallback is not checked against the pending
  map: with \<open>0000\<close> pending, one hundred draws of 0 and a clock whose last four
  hexadecimal digits are \<open>0000\<close>, the allocator returns \<open>0000\<close>, and the new request
  takes the place of the pending one in the map while the old one is unresolved and
  its timer is live.
\<close>

theorem generateRequestId_fallback_collides:
  "generateRequestId collide_tool (random collide_env) (clock_generate collide_env) = ''0000''
   \<and> map_of (pending collide_tool) ''0000'' = Some (demo_pending ''0000'' ''swift-fox'' 100 0)
   \<and> requestPermission demo_registry collide_env collide_tool ''swift-fox'' ''Edit''
         ''Edit a file'' ''{}''
       = (Waiting 1,
          \<lparr>timeoutMs = 300000,
           pending = [(''0000'',
             \<lparr>p_id = ''0000'', p_agentId = ''swift-fox'', action = ''Edit'',
              description = ''Edit a file'', details = ''{}'', p_createdAt = 1730000060420,
              resolve = 1, timeoutHandle = 1\<rparr>)],
           timers = [\<lparr>t_handle = 0, due = 300100, t_requestId = ''0000'', t_resolve = 0\<rparr>,
                     \<lparr>t_handle = 1, due = 1730000360420, t_requestId = ''0000'', t_resolve = 1\<rparr>],
           resolutions = [],
           prompts = [(''swift-fox'', ''0000''), (''swift-fox'', ''0000'')],
           next_handle = 2\<rparr>)"
proof -
  have pad: "padStart4 (toString16 0) = ''0000''"
    by (simp add: padStart4_def digits16_def numeral_3_eq_3)
  have "generateRequestId_loop 100 (pending collide_tool) (\<lambda>k. 0) 0 = None"
    by (rule generateRequestId_loop_exhausted, subst pad) (simp add: collide_tool_def)
  moreover have "slice_last4 (toString16 1730000060416) = ''0000''"
    by (simp add: slice_last4_def digits16_def)
  ultimately have gen:
    "generateRequestId collide_tool (random collide_env) (clock_generate collide_env) = ''0000''"
    by (simp add: generateRequestId_def collide_env_def)
  have "get demo_registry ''swift-fox'' \<noteq> None"
    by (simp add: get_def demo_registry_def)
  with gen show ?thesis
    by (auto simp: requestPermission_def Let_def)
       (simp_all add: collide_tool_def collide_env_def)
qed

subsection \<open>Timeouts\<close>

lemma find_append_fresh:
  "\<not> P y \<Longrightarrow> find P (xs @ [y]) = find P xs"
  by (induction xs) auto

lemma find_clearTimeout_other:
  "h' \<noteq> h \<Longrightarrow> find (\<lambda>t. t_handle t = h) (clearTimeout h' ts) = find (\<lambda>t. t_handle t = h) ts"
  by (induction ts) (auto simp: clearTimeout_def)

lemma find_clearTimeout_self: "find (\<lambda>t. t_handle t = h) (clearTimeout h ts) = None"
  by (induction ts) (auto simp: clearTimeout_def)

lemma set_snd_delete: "set (map snd (AList.delete k al)) \<subseteq> set (map snd al)"
  by (induction al) auto

lemma set_snd_update: "set (map snd (AList.update k v al)) \<subseteq> insert v (set (map snd al))"
  by (induction al) auto

lemma list_all_snd_delete:
  "list_all P (map snd al) \<Longrightarrow> list_all P (map snd (AList.delete k al))"
  by (induction al) auto

lemma list_all_snd_update:
  "list_all P (map snd al) \<Longrightarrow> P v \<Longrightarrow> list_all P (map snd (AList.update k v al))"
  by (induction al) auto

lemma list_all_weaken:
  "list_all P xs \<Longrightarrow> (\<And>x. P x \<Longrightarrow> Q x) \<Longrightarrow> list_all Q xs"
  by (induction xs) auto

subsection \<open>Handles stay in order\<close>

lemma handles_ok_new: "handles_ok (new_tool ms)"
  by (simp add: handles_ok_def new_tool_def)

lemma handles_ok_resolve:
  "handles_ok tool \<Longrightarrow> resolve p < next_handle tool \<Longrightarrow> handles_ok (resolve_pending tool p res)"
  by (simp add: handles_ok_def resolve_pending_def clearTimeout_def list_all_snd_delete)
     (simp add: list_all_iff)

lemma handles_ok_request:
  assumes "handles_ok tool"
  shows "handles_ok (snd (requestPermission reg env tool a act descr det))"
proof -
  let ?n = "next_handle tool"
  from assms have
    p: "list_all (\<lambda>p. resolve p = timeoutHandle p \<and> timeoutHandle p < Suc ?n) (map snd (pending tool))"
    and t: "list_all (\<lambda>t. t_resolve t = t_handle t \<and> t_handle t < Suc ?n) (timers tool)"
    and r: "list_all (\<lambda>r. fst r < Suc ?n) (resolutions tool)"
    unfolding handles_ok_def by (auto elim!: list_all_weaken)
  show ?thesis
    using assms p t r
    by (simp add: requestPermission_def Let_def handles_ok_def list_all_snd_update
        split: option.splits)
qed

lemma handles_ok_fire: "handles_ok tool \<Longrightarrow> handles_ok (fire_timeout tool h)"
proof (cases "find (\<lambda>t. t_handle t = h) (timers tool)")
  case None
  then show "handles_ok tool \<Longrightarrow> ?thesis" by (simp add: fire_timeout_def)
next
  case (Some t)
  assume ok: "handles_ok tool"
  from Some have "t \<in> set (timers tool)"
    by (auto simp: find_Some_iff)
  with ok have "t_resolve t < next_handle tool"
    by (auto simp: handles_ok_def list_all_iff)
  with ok Some show ?thesis
    by (simp add: handles_ok_def fire_timeout_def clearTimeout_def list_all_snd_delete)
       (simp add: list_all_iff)
qed

text \<open>The request a reply resolves is a pending request of the replying agent.\<close>

lemma handleUserResponse_cases:
  "snd (handleUserResponse tool a m) = tool
   \<or> (\<exists>p res. p \<in> set (map snd (pending tool)) \<and> p_agentId p = a
         \<and> snd (handleUserResponse tool a m) = resolve_pending tool p res)"
proof (cases "match_reply (toLowerCase (trim m))")
  case None
  then show ?thesis by (simp add: handleUserResponse_def)
next
  case (Some r)
  obtain rid response where r: "r = (rid, response)" by (cases r)
  show ?thesis
  proof (cases rid)
    case None
    show ?thesis
    proof (cases "getPending tool a = []")
      case True
      with Some r None show ?thesis
        by (simp add: handleUserResponse_def findOldestPending_def)
    next
      case False
      from findOldestPending_Some [OF False] obtain p where
        "findOldestPending tool a = Some p" "p \<in> set (getPending tool a)"
        by blast
      with Some r None show ?thesis
        by (auto simp: handleUserResponse_def getPending_def)
    qed
  next
    case (Some i)
    show ?thesis
    proof (cases "map_of (pending tool) i")
      case None
      with \<open>match_reply (toLowerCase (trim m)) = Some r\<close> r Some show ?thesis
        by (simp add: handleUserResponse_def)
    next
      case (Some p)
      then have "p \<in> set (map snd (pending tool))"
        by (auto dest: map_of_SomeD intro: rev_image_eqI)
      with \<open>match_reply (toLowerCase (trim m)) = Some r\<close> r \<open>rid = Some i\<close> Some show ?thesis
        by (auto simp: handleUserResponse_def)
    qed
  qed
qed

lemma handles_ok_member:
  "handles_ok tool \<Longrightarrow> p \<in> set (map snd (pending tool)) \<Longrightarrow> resolve p < next_handle tool"
  by (auto simp: handles_ok_def list_all_iff)

lemma handles_ok_reply: "handles_ok tool \<Longrightarrow> handles_ok (snd (handleUserResponse tool a m))"
  using handleUserResponse_cases [of tool a m]
  by (auto simp: handles_ok_resolve handles_ok_member simp del: set_map)

lemma foldl_resolve_induct:
  assumes "Q tool" and "\<And>t p. Q t \<Longrightarrow> p \<in> set ps \<Longrightarrow> Q (resolve_pending t p res)"
  shows "Q (foldl (\<lambda>t p. resolve_pending t p res) tool ps)"
  using assms by (induction ps arbitrary: tool) auto

lemma next_handle_resolve: "next_handle (resolve_pending tool p res) = next_handle tool"
  by (simp add: resolve_pending_def)

lemma getPending_member:
  "p \<in> set (getPending tool a) \<Longrightarrow> p \<in> set (map snd (pending tool)) \<and> p_agentId p = a"
  by (simp add: getPending_def)

lemma handles_ok_cancel:
  assumes "handles_ok tool"
  shows "handles_ok (cancelAll tool a)"
proof -
  have "handles_ok (cancelAll tool a) \<and> next_handle (cancelAll tool a) = next_handle tool"
    unfolding cancelAll_def
  proof (rule foldl_resolve_induct)
    show "handles_ok tool \<and> next_handle tool = next_handle tool"
      using assms by simp
  next
    fix t p
    assume q: "handles_ok t \<and> next_handle t = next_handle tool"
      and p: "p \<in> set (getPending tool a)"
    from p assms have "resolve p < next_handle tool"
      using getPending_member handles_ok_member by blast
    with q show "handles_ok (resolve_pending t p \<lparr>approved = False, reason = Some ''cancelled''\<rparr>)
        \<and> next_handle (resolve_pending t p \<lparr>approved = False, reason = Some ''cancelled''\<rparr>)
            = next_handle tool"
      by (simp add: handles_ok_resolve next_handle_resolve)
  qed
  then show ?thesis by simp
qed

lemma handles_ok_step: "handles_ok tool \<Longrightarrow> handles_ok (tool_step tool e)"
  by (cases e) (simp_all add: handles_ok_request handles_ok_reply handles_ok_cancel handles_ok_fire)

lemma handles_ok_run: "handles_ok tool \<Longrightarrow> handles_ok (run tool evs)"
  unfolding run_def by (induction evs arbitrary: tool) (simp_all add: handles_ok_step)

subsection \<open>What leaves a request alone\<close>

lemma keeps_refl: "keeps h s s"
  by (simp add: keeps_def)

lemma keeps_trans: "keeps h s s' \<Longrightarrow> keeps h s' s'' \<Longrightarrow> keeps h s s''"
  by (auto simp: keeps_def)

lemma keeps_resolve:
  assumes "resolve p \<noteq> h" and "timeoutHandle p \<noteq> h"
  shows "keeps h s (resolve_pending s p res)"
proof -
  have "timer_of h (resolve_pending s p res) = timer_of h s"
    using assms(2) by (simp add: timer_of_def resolve_pending_def find_clearTimeout_other)
  moreover have "set (entries_of h (resolve_pending s p res)) \<subseteq> set (entries_of h s)"
    using set_snd_delete [of "p_id p" "pending s"]
    by (auto simp: entries_of_def resolve_pending_def simp del: set_map)
  ultimately show ?thesis
    using assms(1) by (simp add: keeps_def results_of_def resolve_pending_def)
qed

lemma keeps_request:
  assumes "h < next_handle s"
  shows "keeps h s (snd (requestPermission reg env s a act descr det))"
proof (cases "get reg a = None \<or> \<not> send_ok env")
  case True
  then show ?thesis
    by (auto simp: requestPermission_def Let_def keeps_refl split: option.splits)
next
  case False
  let ?rid = "generateRequestId s (random env) (clock_generate env)"
  let ?entry = "\<lparr>p_id = ?rid, p_agentId = a, action = act, description = descr, details = det,
      p_createdAt = clock_register env, resolve = next_handle s, timeoutHandle = next_handle s\<rparr>"
  let ?timer = "\<lparr>t_handle = next_handle s, due = clock_register env + timeoutMs s,
      t_requestId = ?rid, t_resolve = next_handle s\<rparr>"
  from False have s': "snd (requestPermission reg env s a act descr det) =
      s\<lparr>prompts := prompts s @ [(a, ?rid)], timers := timers s @ [?timer],
        pending := AList.update ?rid ?entry (pending s), next_handle := Suc (next_handle s)\<rparr>"
    by (auto simp: requestPermission_def Let_def split: option.splits)
  have "set (entries_of h (snd (requestPermission reg env s a act descr det))) \<subseteq> set (entries_of h s)"
    using set_snd_update [of ?rid ?entry "pending s"] assms
    by (auto simp: s' entries_of_def simp del: set_map)
  moreover have "timer_of h (snd (requestPermission reg env s a act descr det)) = timer_of h s"
    using assms by (simp add: s' timer_of_def find_append_fresh)
  ultimately show ?thesis
    by (simp add: keeps_def) (simp add: s' results_of_def)
qed

lemma keeps_fire:
  assumes "handles_ok s" and "h' \<noteq> h"
  shows "keeps h s (fire_timeout s h')"
proof (cases "find (\<lambda>t. t_handle t = h') (timers s)")
  case None
  then show ?thesis by (simp add: fire_timeout_def keeps_refl)
next
  case (Some t)
  then have "t \<in> set (timers s)" and "t_handle t = h'"
    by (auto simp: find_Some_iff)
  with assms have res: "t_resolve t \<noteq> h"
    by (auto simp: handles_ok_def list_all_iff)
  have "timer_of h (fire_timeout s h') = timer_of h s"
    using Some assms(2) by (simp add: timer_of_def fire_timeout_def find_clearTimeout_other)
  moreover have "set (entries_of h (fire_timeout s h')) \<subseteq> set (entries_of h s)"
    using set_snd_delete [of "t_requestId t" "pending s"] Some
    by (auto simp: entries_of_def fire_timeout_def simp del: set_map)
  ultimately show ?thesis
    using Some res by (simp add: keeps_def results_of_def fire_timeout_def)
qed

lemma untouched:
  assumes "\<forall>q \<in> set (entries_of h s). p_agentId q \<noteq> a"
    and "p \<in> set (map snd (pending s))" and "p_agentId p = a"
  shows "resolve p \<noteq> h \<and> timeoutHandle p \<noteq> h"
  using assms by (auto simp: entries_of_def)

lemma keeps_reply:
  assumes "\<forall>q \<in> set (entries_of h s). p_agentId q \<noteq> a"
  shows "keeps h s (snd (handleUserResponse s a m))"
  using handleUserResponse_cases [of s a m] untouched [OF assms]
  by (auto simp: keeps_refl keeps_resolve simp del: set_map)

lemma keeps_cancel:
  assumes "\<forall>q \<in> set (entries_of h s). p_agentId q \<noteq> a"
  shows "keeps h s (cancelAll s a)"
  unfolding cancelAll_def
proof (rule foldl_resolve_induct)
  show "keeps h s s" by (rule keeps_refl)
next
  fix t p
  assume "keeps h s t" and "p \<in> set (getPending s a)"
  then show "keeps h s (resolve_pending t p \<lparr>approved = False, reason = Some ''cancelled''\<rparr>)"
    using untouched [OF assms] getPending_member [of p s a] keeps_resolve keeps_trans by blast
qed


lemma results_of_resolve:
  "results_of h (resolve_pending s p res) = results_of h s @ (if resolve p = h then [res] else [])"
  by (simp add: results_of_def resolve_pending_def)

lemma results_of_foldl:
  "results_of h (foldl (\<lambda>t p. resolve_pending t p res) s ps)
     = results_of h s @ map (\<lambda>p. res) (filter (\<lambda>p. resolve p = h) ps)"
  by (induction ps arbitrary: s) (simp_all add: results_of_resolve)

lemma handles_ok_same:
  "handles_ok tool \<Longrightarrow> p \<in> set (map snd (pending tool)) \<Longrightarrow> timeoutHandle p = resolve p"
  by (auto simp: handles_ok_def list_all_iff)

lemma keeps_step_quiet:
  assumes "handles_ok s" and "h < next_handle s"
    and "\<not> answered h s e" and "e \<noteq> Timeout h"
  shows "keeps h s (tool_step s e)"
proof (cases e)
  case (Request reg env a' act descr det)
  with assms(2) show ?thesis by (simp add: keeps_request)
next
  case (Reply a' m)
  from handleUserResponse_cases [of s a' m] show ?thesis
  proof
    assume "snd (handleUserResponse s a' m) = s"
    with Reply show ?thesis by (simp add: keeps_refl)
  next
    assume "\<exists>p res. p \<in> set (map snd (pending s)) \<and> p_agentId p = a'
        \<and> snd (handleUserResponse s a' m) = resolve_pending s p res"
    then obtain p res where p: "p \<in> set (map snd (pending s))"
      and eq: "snd (handleUserResponse s a' m) = resolve_pending s p res"
      by blast
    from assms(3) Reply eq have "resolve p \<noteq> h"
      by (auto simp: answered_def results_of_resolve split: if_splits)
    moreover from this handles_ok_same [OF assms(1) p] have "timeoutHandle p \<noteq> h"
      by simp
    ultimately show ?thesis
      using Reply eq by (simp add: keeps_resolve)
  qed
next
  case (CancelAll a')
  let ?res = "\<lparr>approved = False, reason = Some ''cancelled''\<rparr>"
  from assms(3) CancelAll have "filter (\<lambda>p. resolve p = h) (getPending s a') = []"
    by (simp add: answered_def cancelAll_def results_of_foldl)
  then have free: "\<forall>p \<in> set (getPending s a'). resolve p \<noteq> h"
    by (simp add: filter_empty_conv)
  have "keeps h s (foldl (\<lambda>t p. resolve_pending t p ?res) s (getPending s a'))"
  proof (rule foldl_resolve_induct)
    show "keeps h s s" by (rule keeps_refl)
  next
    fix t p
    assume k: "keeps h s t" and p: "p \<in> set (getPending s a')"
    from p free have r: "resolve p \<noteq> h" by blast
    from p have "p \<in> set (map snd (pending s))" by (simp add: getPending_def)
    from handles_ok_same [OF assms(1) this] r have "timeoutHandle p \<noteq> h" by simp
    with r have "keeps h t (resolve_pending t p ?res)" by (rule keeps_resolve)
    with k show "keeps h s (resolve_pending t p ?res)" by (rule keeps_trans)
  qed
  with CancelAll show ?thesis by (simp add: cancelAll_def)
next
  case (Timeout h')
  with assms(1,4) show ?thesis by (simp add: keeps_fire)
qed

lemma keeps_run_quiet:
  assumes "handles_ok s" and "h < next_handle s" and "undisturbed h s evs"
  shows "keeps h s (run s evs)"
  using assms
proof (induction evs arbitrary: s)
  case Nil
  show ?case by (simp add: run_def keeps_refl)
next
  case (Cons e evs)
  from Cons.prems(3) have e: "\<not> answered h s e" "e \<noteq> Timeout h"
    and rest: "undisturbed h (tool_step s e) evs"
    by simp_all
  have k: "keeps h s (tool_step s e)"
    using Cons.prems(1,2) e by (rule keeps_step_quiet)
  from Cons.prems(1) have ok: "handles_ok (tool_step s e)"
    by (rule handles_ok_step)
  from k Cons.prems(2) have lt: "h < next_handle (tool_step s e)"
    by (simp add: keeps_def)
  from Cons.IH [OF ok lt rest] have "keeps h (tool_step s e) (run s (e # evs))"
    by (simp add: run_def)
  with k show ?case by (rule keeps_trans)
qed

lemma keeps_step_spent:
  assumes "handles_ok s" and "h < next_handle s"
    and "entries_of h s = []" and "timer_of h s = None"
  shows "keeps h s (tool_step s e)"
proof (cases e)
  case (Request reg env a' act descr det)
  with assms(2) show ?thesis by (simp add: keeps_request)
next
  case (Reply a' m)
  with assms(3) show ?thesis by (simp add: keeps_reply)
next
  case (CancelAll a')
  with assms(3) show ?thesis by (simp add: keeps_cancel)
next
  case (Timeout h')
  show ?thesis
  proof (cases "h' = h")
    case True
    with assms(4) Timeout show ?thesis
      by (simp add: fire_timeout_def timer_of_def keeps_refl)
  next
    case False
    with assms(1) Timeout show ?thesis by (simp add: keeps_fire)
  qed
qed

lemma keeps_run_spent:
  assumes "handles_ok s" and "h < next_handle s"
    and "entries_of h s = []" and "timer_of h s = None"
  shows "keeps h s (run s evs)"
  using assms
proof (induction evs arbitrary: s)
  case Nil
  show ?case by (simp add: run_def keeps_refl)
next
  case (Cons e evs)
  from Cons.prems have k: "keeps h s (tool_step s e)"
    by (simp add: keeps_step_spent)
  from Cons.prems(1) have ok: "handles_ok (tool_step s e)"
    by (rule handles_ok_step)
  from k Cons.prems(2) have lt: "h < next_handle (tool_step s e)"
    by (simp add: keeps_def)
  from k Cons.prems(3) have en: "entries_of h (tool_step s e) = []"
    by (simp add: keeps_def)
  from k Cons.prems(4) have ti: "timer_of h (tool_step s e) = None"
    by (simp add: keeps_def)
  from Cons.IH [OF ok lt en ti] have "keeps h (tool_step s e) (run s (e # evs))"
    by (simp add: run_def)
  with k show ?case by (rule keeps_trans)
qed

lemma timeoutMs_step: "timeoutMs (tool_step s e) = timeoutMs s"
proof (cases e)
  case (Request reg env a act descr det)
  then show ?thesis
    by (auto simp: requestPermission_def Let_def split: option.splits)
next
  case (Reply a m)
  then show ?thesis
    using handleUserResponse_cases [of s a m] by (auto simp: resolve_pending_def)
next
  case (CancelAll a)
  have "timeoutMs (cancelAll s a) = timeoutMs s"
    unfolding cancelAll_def by (rule foldl_resolve_induct) (simp_all add: resolve_pending_def)
  with CancelAll show ?thesis by simp
next
  case (Timeout h)
  then show ?thesis by (simp add: fire_timeout_def split: option.splits)
qed

lemma timeoutMs_run: "timeoutMs (run s evs) = timeoutMs s"
  unfolding run_def by (induction evs arbitrary: s) (simp_all add: timeoutMs_step)

lemma find_append:
  "find P (xs @ ys) = (case find P xs of None \<Rightarrow> find P ys | Some x \<Rightarrow> Some x)"
  by (induction xs) auto

lemma fresh_handle_unused:
  assumes "handles_ok tool"
  shows "timer_of (next_handle tool) tool = None"
    and "results_of (next_handle tool) tool = []"
    and "entries_of (next_handle tool) tool = []"
proof -
  from assms have "\<forall>t \<in> set (timers tool). t_handle t \<noteq> next_handle tool"
    by (auto simp: handles_ok_def list_all_iff)
  then show "timer_of (next_handle tool) tool = None"
    by (simp add: timer_of_def find_None_iff)
  from assms have "\<forall>r \<in> set (resolutions tool). fst r \<noteq> next_handle tool"
    by (auto simp: handles_ok_def list_all_iff)
  then show "results_of (next_handle tool) tool = []"
    by (simp add: results_of_def filter_empty_conv)
  from assms have "\<forall>p \<in> set (map snd (pending tool)).
      resolve p \<noteq> next_handle tool \<and> timeoutHandle p \<noteq> next_handle tool"
    by (auto simp: handles_ok_def list_all_iff)
  then show "entries_of (next_handle tool) tool = []"
    unfolding entries_of_def filter_empty_conv by blast
qed

text \<open>The state in which \<open>requestPermission\<close> leaves a request waiting.\<close>

lemma requestPermission_Waiting:
  assumes "requestPermission reg env tool a act descr det = (Waiting h, s1)"
    and "handles_ok tool"
  shows "h = next_handle tool" and "h < next_handle s1"
    and "\<exists>t. timer_of h s1 = Some t \<and> due t = clock_register env + timeoutMs tool
             \<and> t_resolve t = h
             \<and> (\<forall>q \<in> set (entries_of h s1). p_agentId q = a \<and> p_id q = t_requestId t)"
    and "results_of h s1 = []"
proof -
  let ?rid = "generateRequestId tool (random env) (clock_generate env)"
  let ?entry = "\<lparr>p_id = ?rid, p_agentId = a, action = act, description = descr, details = det,
      p_createdAt = clock_register env, resolve = next_handle tool,
      timeoutHandle = next_handle tool\<rparr>"
  let ?timer = "\<lparr>t_handle = next_handle tool, due = clock_register env + timeoutMs tool,
      t_requestId = ?rid, t_resolve = next_handle tool\<rparr>"
  from assms(1) have h: "h = next_handle tool"
    and s1: "s1 = tool\<lparr>prompts := prompts tool @ [(a, ?rid)], timers := timers tool @ [?timer],
        pending := AList.update ?rid ?entry (pending tool), next_handle := Suc (next_handle tool)\<rparr>"
    by (auto simp: requestPermission_def Let_def split: option.splits if_splits)
  show "h = next_handle tool" by (rule h)
  show "h < next_handle s1" by (simp add: h s1)
  have timer: "timer_of h s1 = Some ?timer"
    using fresh_handle_unused(1) [OF assms(2)]
    by (simp add: h s1 timer_of_def find_append)
  have "set (entries_of h s1) \<subseteq> {?entry}"
    using fresh_handle_unused(3) [OF assms(2)] set_snd_update [of ?rid ?entry "pending tool"]
    by (auto simp: h s1 entries_of_def filter_empty_conv simp del: set_map)
  then have "\<forall>q \<in> set (entries_of h s1). p_agentId q = a \<and> p_id q = t_requestId ?timer"
    by auto
  with timer show "\<exists>t. timer_of h s1 = Some t \<and> due t = clock_register env + timeoutMs tool
             \<and> t_resolve t = h
             \<and> (\<forall>q \<in> set (entries_of h s1). p_agentId q = a \<and> p_id q = t_requestId t)"
    by (simp add: h)
  show "results_of h s1 = []"
    using fresh_handle_unused(2) [OF assms(2)] by (simp add: h s1 results_of_def)
qed


lemma fire_live_timer:
  assumes "timer_of h s = Some t" and "t_resolve t = h" and "results_of h s = []"
    and "\<forall>q \<in> set (entries_of h s). p_id q = t_requestId t" and "pending_ok s"
  shows "timer_of h (fire_timeout s h) = None"
    and "results_of h (fire_timeout s h) = [\<lparr>approved = False, reason = Some ''timeout''\<rparr>]"
    and "entries_of h (fire_timeout s h) = []"
    and "map_of (pending (fire_timeout s h)) (t_requestId t) = None"
    and "next_handle (fire_timeout s h) = next_handle s"
proof -
  from assms(1) have s': "fire_timeout s h =
      s\<lparr>timers := clearTimeout h (timers s),
        pending := AList.delete (t_requestId t) (pending s),
        resolutions := resolutions s @ [(t_resolve t, \<lparr>approved = False, reason = Some ''timeout''\<rparr>)]\<rparr>"
    by (simp add: fire_timeout_def timer_of_def)
  show "timer_of h (fire_timeout s h) = None"
    by (simp add: s' timer_of_def find_clearTimeout_self)
  show "results_of h (fire_timeout s h) = [\<lparr>approved = False, reason = Some ''timeout''\<rparr>]"
    using assms(2,3) by (simp add: s' results_of_def)
  show "map_of (pending (fire_timeout s h)) (t_requestId t) = None"
    by (simp add: s' delete_conv')
  show "next_handle (fire_timeout s h) = next_handle s"
    by (simp add: s')
  have "q \<notin> set (entries_of h (fire_timeout s h))" for q
  proof
    assume "q \<in> set (entries_of h (fire_timeout s h))"
    then have touch: "resolve q = h \<or> timeoutHandle q = h"
      and "q \<in> snd ` set (AList.delete (t_requestId t) (pending s))"
      by (auto simp: s' entries_of_def)
    then obtain k where k: "(k, q) \<in> set (pending s)" "k \<noteq> t_requestId t"
      by (auto simp: AList.delete_eq)
    from k(1) touch have "q \<in> set (entries_of h s)"
      by (auto simp: entries_of_def intro: rev_image_eqI)
    with assms(4) have "p_id q = t_requestId t" by blast
    moreover from k(1) assms(5) have "p_id q = k"
      by (auto simp: pending_ok_def list_all_iff)
    ultimately show False using k(2) by simp
  qed
  then show "entries_of h (fire_timeout s h) = []"
    by (cases "entries_of h (fire_timeout s h)") auto
qed

text \<open>
  C4. Take any state the tool can reach, and a request that \<open>requestPermission\<close> leaves
  waiting there, with promise and timer \<open>h\<close>. Along every history \<open>evs\<close> in which the
  agent neither replies nor is cancelled and the timer has not yet fired, the timer stays
  live, due at the time of registration plus the configured timeout, and the promise is
  unresolved. When the timer fires, the request id leaves the pending map, and from then
  on, whatever happens \<open>later\<close>, the promise has been resolved exactly once, as a denial
  with reason \<open>timeout\<close>, no pending entry carries the request and its timer is gone.
\<close>

theorem timeout_resolves_exactly_once:
  assumes "requestPermission reg env (run (new_tool ms) history) agentId act descr det
             = (Waiting h, s1)"
    and "undisturbed h s1 evs"
  shows "(\<exists>t. timer_of h (run s1 evs) = Some t \<and> due t = clock_register env + ms
              \<and> map_of (pending (fire_timeout (run s1 evs) h)) (t_requestId t) = None)
         \<and> results_of h (run s1 evs) = []
         \<and> results_of h (run (fire_timeout (run s1 evs) h) later)
               = [\<lparr>approved = False, reason = Some ''timeout''\<rparr>]
         \<and> entries_of h (run (fire_timeout (run s1 evs) h) later) = []
         \<and> timer_of h (run (fire_timeout (run s1 evs) h) later) = None"
proof -
  let ?tool = "run (new_tool ms) history"
  let ?s2 = "run s1 evs"
  let ?s3 = "fire_timeout ?s2 h"
  have ok0: "handles_ok ?tool" and pk0: "pending_ok ?tool"
    by (simp_all add: handles_ok_run handles_ok_new pending_ok_run pending_ok_new)
  have ms: "timeoutMs ?tool = ms"
    by (simp add: timeoutMs_run new_tool_def)
  from assms(1) have s1: "s1 = snd (requestPermission reg env ?tool agentId act descr det)"
    by simp
  have ok1: "handles_ok s1" and pk1: "pending_ok s1"
    by (simp_all add: s1 handles_ok_request pending_ok_request ok0 pk0)
  from requestPermission_Waiting [OF assms(1) ok0] obtain t where
    lt1: "h < next_handle s1" and timer1: "timer_of h s1 = Some t"
    and due: "due t = clock_register env + ms" and res: "t_resolve t = h"
    and ent1: "\<forall>q \<in> set (entries_of h s1). p_agentId q = agentId \<and> p_id q = t_requestId t"
    and none1: "results_of h s1 = []"
    by (auto simp: ms)
  from ok1 lt1 assms(2) have k12: "keeps h s1 ?s2"
    by (rule keeps_run_quiet)
  have ok2: "handles_ok ?s2" and pk2: "pending_ok ?s2"
    by (simp_all add: handles_ok_run pending_ok_run ok1 pk1)
  from k12 timer1 have timer2: "timer_of h ?s2 = Some t" by (simp add: keeps_def)
  from k12 none1 have none2: "results_of h ?s2 = []" by (simp add: keeps_def)
  from k12 ent1 have ent2: "\<forall>q \<in> set (entries_of h ?s2). p_id q = t_requestId t"
    by (auto simp: keeps_def)
  from k12 lt1 have lt2: "h < next_handle ?s2" by (simp add: keeps_def)
  note fired = fire_live_timer [OF timer2 res none2 ent2 pk2]
  have ok3: "handles_ok ?s3" by (simp add: handles_ok_fire ok2)
  have lt3: "h < next_handle ?s3" by (simp add: fired(5) lt2)
  from ok3 lt3 fired(3) fired(1) have k34: "keeps h ?s3 (run ?s3 later)"
    by (rule keeps_run_spent)
  from k34 fired(2) have "results_of h (run ?s3 later) = [\<lparr>approved = False, reason = Some ''timeout''\<rparr>]"
    by (simp add: keeps_def)
  moreover from k34 fired(3) have "entries_of h (run ?s3 later) = []"
    by (simp add: keeps_def)
  moreover from k34 fired(1) have "timer_of h (run ?s3 later) = None"
    by (simp add: keeps_def)
  ultimately show ?thesis
    using timer2 due fired(4) none2 by blast
qed

lemma generateRequestId_first_draw:
  assumes "padStart4 (toString16 (draws 0 mod 0x10000)) = i" and "map_of (pending tool) i = None"
  shows "generateRequestId tool draws now = i"
proof -
  have "generateRequestId_loop (Suc n) (pending tool) draws 0 = Some i" for n
    by (simp only: generateRequestId_loop.simps Let_def assms refl if_True)
  from this [of 99] have "generateRequestId_loop 100 (pending tool) draws 0 = Some i"
    by (simp del: generateRequestId_loop.simps toString16.simps)
  then show ?thesis
    by (simp add: generateRequestId_def del: toString16.simps generateRequestId_loop.simps)
qed

theorem timeout_resolves_exactly_once_witness:
  "requestPermission demo_registry request_env (run (new_tool 300000) []) ''swift-fox''
      ''Bash'' ''Run a shell command'' ''{}'' = (Waiting 0, waiting_tool)
   \<and> undisturbed 0 waiting_tool quiet_events
   \<and> (\<exists>t. timer_of 0 (run waiting_tool quiet_events)
              = Some t
          \<and> due t = clock_register request_env + 300000
          \<and> map_of (pending (fire_timeout
                 (run waiting_tool quiet_events) 0))
               (t_requestId t) = None)
   \<and> results_of 0 (run waiting_tool quiet_events) = []
   \<and> results_of 0 (run (fire_timeout
          (run waiting_tool quiet_events) 0) later_events)
       = [\<lparr>approved = False, reason = Some ''timeout''\<rparr>]
   \<and> entries_of 0 (run (fire_timeout
          (run waiting_tool quiet_events) 0) later_events) = []
   \<and> timer_of 0 (run (fire_timeout
          (run waiting_tool quiet_events) 0) later_events) = None"
proof -
  have "generateRequestId (new_tool 300000) (random request_env) (clock_generate request_env)
        = ''a1b2''"
    by (rule generateRequestId_first_draw)
       (simp_all add: request_env_def padStart4_def digits16_def new_tool_def)
  then have h1: "requestPermission demo_registry request_env (run (new_tool 300000) [])
      ''swift-fox'' ''Bash'' ''Run a shell command'' ''{}'' = (Waiting 0, waiting_tool)"
    by (simp add: requestPermission_def run_def get_def demo_registry_def Let_def
        del: generateRequestId_loop.simps toString16.simps)
       (simp add: new_tool_def request_env_def waiting_tool_def)
  have h2: "undisturbed 0 waiting_tool quiet_events"
    by (simp add: quiet_events_def answered_def handleUserResponse_def match_reply_def trim_def
        is_space_def toLowerCase_def toLowerCase_char_def upper_chars_def lower_chars_def
        is_hex_lower_def response_tokens_def findOldestPending_def getPending_def cancelAll_def
        fire_timeout_def waiting_tool_def results_of_def)
  from timeout_resolves_exactly_once [OF h1 h2, of "later_events"] h1 h2
  show ?thesis
    by blast
qed

section \<open>Properties of the subprocess adapter\<close>

lemma stdin_send:
  "stdin (snd (send p m)) = stdin p @ (if isAlive p \<and> isReady p then [m] else [])"
  by (simp add: send_def writeMessage_def)

lemma isReady_send:
  "isReady (snd (send p m)) = (isReady p \<and> \<not> isAlive p)"
  by (auto simp: send_def writeMessage_def)

lemma stdin_processQueue:
  "stdin (processQueue p) = stdin p @ (if isReady (processQueue p) then [] else [hd (messageQueue p)])"
  by (simp add: processQueue_def writeMessage_def split: list.splits)

text \<open>
  Turns are serialized: in every history, a turn is written only when no turn is in
  flight, and the process is not ready exactly while one is.
\<close>

lemma turns_serialized: "serialized (\<not> isReady p) (observe p inputs)"
proof (induction inputs arbitrary: p)
  case Nil
  show ?case by simp
next
  case (Cons i inputs)
  show ?case
  proof (cases i)
    case (Send m)
    with Cons.IH [of "snd (send p m)"] show ?thesis
      by (auto simp: stdin_send isReady_send)
  next
    case (Decoded ev)
    show ?thesis
    proof (cases ev)
      case (Result sid stop)
      with Decoded Cons.IH [of "processQueue (p\<lparr>c_sessionId := Some sid\<rparr>)"] show ?thesis
        by (auto simp: stdin_processQueue)
    next
      case (Init sid mode)
      with Decoded Cons.IH [of "p\<lparr>c_sessionId := Some sid\<rparr>"] show ?thesis
        by simp
    next
      case (Assistant content)
      with Decoded Cons.IH [of p] show ?thesis
        by simp
    next
      case Other
      with Decoded Cons.IH [of p] show ?thesis
        by simp
    qed
  qed
qed

text \<open>
  As long as no empty message is sent to a live process, the turns written followed by
  the turns still queued are the messages in their order of arrival.
\<close>

lemma queue_ok_step:
  assumes "queue_ok p" and "i \<noteq> Send []"
  shows "queue_ok (proc_step p i)
         \<and> stdin (proc_step p i) @ messageQueue (proc_step p i)
             = stdin p @ messageQueue p @ sent_messages [i]"
proof (cases i)
  case (Send m)
  with assms show ?thesis
    by (auto simp: queue_ok_def send_def writeMessage_def isAlive_def)
next
  case (Decoded ev)
  with assms show ?thesis
    by (cases ev)
       (auto simp: queue_ok_def processQueue_def writeMessage_def isAlive_def split: list.splits)
qed

lemma arrival_order_nonempty:
  assumes "queue_ok p" and "Send [] \<notin> set inputs"
  shows "stdin (foldl proc_step p inputs) @ messageQueue (foldl proc_step p inputs)
         = stdin p @ messageQueue p @ sent_messages inputs"
  using assms
proof (induction inputs arbitrary: p)
  case Nil
  show ?case by simp
next
  case (Cons i inputs)
  from Cons.prems have i: "i \<noteq> Send []" and rest: "Send [] \<notin> set inputs"
    by auto
  from queue_ok_step [OF Cons.prems(1) i] have
    ok: "queue_ok (proc_step p i)" and
    eq: "stdin (proc_step p i) @ messageQueue (proc_step p i)
           = stdin p @ messageQueue p @ sent_messages [i]"
    by simp_all
  have "sent_messages (i # inputs) = sent_messages [i] @ sent_messages inputs"
    by (cases i) simp_all
  with Cons.IH [OF ok rest] eq show ?case
    by (simp del: sent_messages.simps)
qed

text \<open>
  C2. An empty message breaks the order of arrival. With \<open>a\<close> in flight, the empty
  message and \<open>b\<close> are queued; the next \<open>result\<close> takes the empty message off the queue,
  writes nothing and marks the process ready although \<open>b\<close> is still queued; \<open>c\<close>,
  arriving later, is written at once, and \<open>b\<close> only after the following \<open>result\<close>.
\<close>

theorem empty_message_breaks_arrival_order:
  "stdin (foldl proc_step new_process
            [Send ''a'', Send [], Send ''b'', Decoded (Result ''s1'' ''end_turn''),
             Send ''c'', Decoded (Result ''s1'' ''end_turn'')])
     = [''a'', ''c'', ''b'']
   \<and> observe new_process
        [Send ''a'', Send [], Send ''b'', Decoded (Result ''s1'' ''end_turn''),
         Send ''c'', Decoded (Result ''s1'' ''end_turn'')]
     = [Written ''a'', ResultDecoded, Written ''c'', ResultDecoded, Written ''b'']"
  by (simp add: new_process_def send_def isAlive_def writeMessage_def processQueue_def)

section \<open>Permission replies in an agent session\<close>

lemma reply_with_unmatched_id:
  assumes "match_reply (toLowerCase (trim message)) = Some (Some rid, response)"
    and "map_of (pending tool) rid = None
         \<or> (\<exists>p. map_of (pending tool) rid = Some p \<and> p_agentId p \<noteq> agentId)"
  shows "handleUserResponse tool agentId message = (True, tool)"
  using assms by (auto simp: handleUserResponse_def)

lemma match_reply_a1b2_yes:
  "match_reply (toLowerCase (trim ''a1b2 yes'')) = Some (Some ''a1b2'', ''yes'')"
  by (simp add: match_reply_def trim_def is_space_def toLowerCase_def toLowerCase_char_def
      upper_chars_def lower_chars_def is_hex_lower_def response_tokens_def)

text \<open>
  C6. With only \<open>c3d4\<close> pending, \<open>handleUserResponse\<close> takes the reply \<open>a1b2 yes\<close> as
  a permission response and changes nothing. But \<open>handleIncomingMessage\<close>, through which
  every message of the operator to an agent passes, never calls \<open>handleUserResponse\<close>:
  after the three reserved commands it sends the text to the subprocess, so
  \<open>a1b2 yes\<close> is written to the subprocess as a user turn.
\<close>

theorem permission_reply_forwarded_to_subprocess:
  "handleUserResponse c3d4_tool ''swift-fox'' ''a1b2 yes'' = (True, c3d4_tool)
   \<and> handleIncomingMessage ''op@localhost'' new_process ''op@localhost/phone'' ''a1b2 yes''
       = (forwarded,
          \<lparr>killed = False, exitCode = None, c_sessionId = None, messageQueue = [],
           isReady = False, stdin = [''a1b2 yes'']\<rparr>)"
proof -
  have "handleUserResponse c3d4_tool ''swift-fox'' ''a1b2 yes'' = (True, c3d4_tool)"
    by (rule reply_with_unmatched_id [OF match_reply_a1b2_yes]) (simp add: c3d4_tool_def)
  moreover have "handleIncomingMessage ''op@localhost'' new_process ''op@localhost/phone'' ''a1b2 yes''
       = (forwarded,
          \<lparr>killed = False, exitCode = None, c_sessionId = None, messageQueue = [],
           isReady = False, stdin = [''a1b2 yes'']\<rparr>)"
    by (simp add: handleIncomingMessage_def bare_jid_def trim_def is_space_def toLowerCase_def
        toLowerCase_char_def upper_chars_def lower_chars_def send_def isAlive_def
        writeMessage_def new_process_def)
  ultimately show ?thesis
    by simp
qed

section \<open>Properties of recovery\<close>

lemma set_status_spawned: "spawned (snd (set_status svc i st)) = spawned svc"
  by (simp add: set_status_def split: prod.splits)

lemma attemptAutoRecovery_killed:
  "attemptAutoRecovery spawn_error url svc ag None =
     (case set_status svc (a_id ag) stopped of
        (Inl e, svc') \<Rightarrow> (Inl e, svc')
      | (Inr u, svc') \<Rightarrow> (Inr None, svc'))"
  by (simp add: attemptAutoRecovery_def handleProcessExit_def)

text \<open>
  The stop callback passes \<open>null\<close> as the exit code, which \<open>handleProcessExit\<close> reads as
  an intentional kill: whatever the agent and the reason, it spawns nothing.
\<close>

lemma onStopped_never_spawns:
  "spawned (snd (onStopped spawn_error url svc stoppedEvent)) = spawned svc"
proof -
  have a: "spawned (snd (attemptAutoRecovery spawn_error url s ag None)) = spawned s" for s ag
    using set_status_spawned [of s "a_id ag" stopped]
    by (auto simp: attemptAutoRecovery_killed split: prod.splits sum.splits)
  let ?svc1 = "svc\<lparr>agentHandlers := removeAll (s_agentId stoppedEvent) (agentHandlers svc),
                     permissionTool := cancelAll (permissionTool svc) (s_agentId stoppedEvent)\<rparr>"
  have b: "spawned (snd (set_status ?svc1 (s_agentId stoppedEvent) stopped)) = spawned svc"
    by (simp add: set_status_spawned)
  show ?thesis
    using a b
    by (auto simp: onStopped_def Let_def split: prod.splits sum.splits option.splits)
qed

text \<open>
  Called with the exit code 1, \<open>attemptAutoRecovery\<close> does recover the demo agent: it
  spawns with the resume token and leaves the agent running.
\<close>

lemma attemptAutoRecovery_exit_code_1:
  "fst (attemptAutoRecovery spawn_succeeds demo_url demo_service
          (the (get demo_registry ''swift-fox'')) (Some 1))
     = Inr (Some \<lparr>success = True, resumed = True, r_process = Some new_process, r_error = None\<rparr>)
   \<and> map (resumeSessionId \<circ> fst)
         (spawned (snd (attemptAutoRecovery spawn_succeeds demo_url demo_service
            (the (get demo_registry ''swift-fox'')) (Some 1))))
     = [Some ''sess-1'']
   \<and> map_option status
         (get (registry (snd (attemptAutoRecovery spawn_succeeds demo_url demo_service
            (the (get demo_registry ''swift-fox'')) (Some 1)))) ''swift-fox'')
     = Some running"
  by (simp add: attemptAutoRecovery_def handleProcessExit_def recover_def set_status_def
      update_def merge_agent_def upsertAgent_def save_def spawn_def spawn_succeeds_def
      truthy_def get_def demo_service_def demo_registry_def demo_agent_def no_updates_def Let_def)

text \<open>
  C1. The subprocess of the running agent \<open>swift-fox\<close>, which holds the resume token
  \<open>sess-1\<close>, exits with code 1: the exit callback runs with that code, the output stream
  ends and the stop callback runs with reason \<open>process_exit\<close>. No subprocess is spawned
  and the agent is left \<open>stopped\<close>, its token still in the registry.
\<close>

theorem crash_with_resume_token_not_recovered:
  "fst (onStopped spawn_succeeds demo_url
          (snd (onExit demo_service ''swift-fox'' (Some 1) (Some ''sess-1'')))
          \<lparr>s_agentId = ''swift-fox'', s_reason = process_exit\<rparr>) = Inr None
   \<and> spawned (snd (onStopped spawn_succeeds demo_url
          (snd (onExit demo_service ''swift-fox'' (Some 1) (Some ''sess-1'')))
          \<lparr>s_agentId = ''swift-fox'', s_reason = process_exit\<rparr>)) = []
   \<and> map_option (\<lambda>a. (status a, sessionId a))
        (get (registry (snd (onStopped spawn_succeeds demo_url
          (snd (onExit demo_service ''swift-fox'' (Some 1) (Some ''sess-1'')))
          \<lparr>s_agentId = ''swift-fox'', s_reason = process_exit\<rparr>))) ''swift-fox'')
      = Some (stopped, Some ''sess-1'')"
  by (simp add: onStopped_def onExit_def attemptAutoRecovery_def handleProcessExit_def
      set_status_def update_def merge_agent_def upsertAgent_def save_def truthy_def get_def
      demo_service_def demo_registry_def demo_agent_def no_updates_def cancelAll_def getPending_def
      new_tool_def Let_def)

end
